theory Spec2Isabelle
  imports Complex_Main
begin

section \<open>Python values and exceptions\<close>

text \<open>
  The payload of a tensor is declared \<^verbatim>\<open>data: List[Any]\<close>: after JSON decoding it is a
  Python list whose items are floats (\<open>PyNum\<close>), integers of any size (\<open>PyInt\<close>), booleans,
  strings or further lists. A float is represented by the real it denotes. What the reals
  cannot express is outside this development: the rounding of float32 and float64, a float
  beyond the range of float32 (which numpy turns into an infinity, without raising), and NaN
  (which is what numpy makes of a JSON null); JSON objects as items are left out as well.
\<close>

datatype pyval =
  PyNum real | PyInt int | PyBool bool | PyStr string | PyList "pyval list"

text \<open>The exception classes that the modelled code paths raise.\<close>

datatype exn = IndexError | ValueError | TypeError | AxisError | OverflowError

text \<open>\<^verbatim>\<open>xs[i]\<close> on a Python list, for a non-negative index.\<close>

definition getitem :: "'a list \<Rightarrow> nat \<Rightarrow> exn + 'a" where
  "getitem xs i = (if i < length xs then Inr (xs ! i) else Inl IndexError)"

text \<open>
  A computation applied to every item in turn (a comprehension, or a vectorised numpy
  operation): the first exception ends it.
\<close>

fun try_map :: "('a \<Rightarrow> exn + 'b) \<Rightarrow> 'a list \<Rightarrow> exn + 'b list" where
  "try_map f [] = Inr []"
| "try_map f (x # xs) =
     (case f x of
        Inl e \<Rightarrow> Inl e
      | Inr y \<Rightarrow> (case try_map f xs of Inl e \<Rightarrow> Inl e | Inr ys \<Rightarrow> Inr (y # ys)))"

section \<open>The numpy operations the server calls\<close>

text \<open>An array is its shape and its items in row-major order.\<close>

datatype ndarray = NDArray (nd_shape: "nat list") (nd_elems: "real list")

definition ndim :: "ndarray \<Rightarrow> nat" where
  "ndim a = length (nd_shape a)"

text \<open>
  Shape discovery of \<^verbatim>\<open>np.array\<close>: a list is a dimension when all its items have one and
  the same shape; a string is a scalar. \<open>None\<close> is the inhomogeneous case, which raises
  \<^verbatim>\<open>ValueError\<close> when a numeric dtype is requested.
\<close>

fun np_shape :: "pyval \<Rightarrow> nat list option" where
  "np_shape (PyList xs) =
     (case those (map np_shape xs) of
        None \<Rightarrow> None
      | Some [] \<Rightarrow> Some [0]
      | Some (sh # shs) \<Rightarrow>
          if list_all (\<lambda>s. s = sh) shs then Some (length xs # sh) else None)"
| "np_shape _ = Some []"

text \<open>The scalars of a nested list, in row-major order.\<close>

fun np_leaves :: "pyval \<Rightarrow> pyval list" where
  "np_leaves (PyList xs) = concat (map np_leaves xs)"
| "np_leaves v = [v]"

text \<open>
  Conversion of one scalar to float32, which goes through Python's conversion to a float.
  An integer converts when it rounds to a double, that is below \<open>2^1024 - 2^970\<close> in
  absolute value, and raises \<^verbatim>\<open>OverflowError\<close> from there on. A boolean becomes 1.0 or
  0.0. A string goes through Python's float parser, which is a parameter \<open>pf\<close> here (\<open>None\<close>
  when the parser raises \<^verbatim>\<open>ValueError\<close>).
\<close>

definition int_too_large :: int where
  "int_too_large = 2 ^ 1024 - 2 ^ 970"

fun to_float32 :: "(string \<Rightarrow> real option) \<Rightarrow> pyval \<Rightarrow> exn + real" where
  "to_float32 pf (PyNum x) = Inr x"
| "to_float32 pf (PyInt i) =
     (if int_too_large \<le> \<bar>i\<bar> then Inl OverflowError else Inr (of_int i))"
| "to_float32 pf (PyBool b) = Inr (if b then 1 else 0)"
| "to_float32 pf (PyStr s) = (case pf s of None \<Rightarrow> Inl ValueError | Some x \<Rightarrow> Inr x)"
| "to_float32 pf (PyList xs) = Inl ValueError"

text \<open>
  \<^verbatim>\<open>np.array(data, dtype=np.float32)\<close> for a list \<open>data\<close>: the shape is found first, then
  the scalars are converted in order.
\<close>

definition np_array :: "(string \<Rightarrow> real option) \<Rightarrow> pyval list \<Rightarrow> exn + ndarray" where
  "np_array pf xs =
     (case np_shape (PyList xs) of
        None \<Rightarrow> Inl ValueError
      | Some sh \<Rightarrow>
          (case try_map (to_float32 pf) (np_leaves (PyList xs)) of
             Inl e \<Rightarrow> Inl e
           | Inr vs \<Rightarrow> Inr (NDArray sh vs)))"

text \<open>\<^verbatim>\<open>a.reshape(1, -1)\<close>: one row holding all items.\<close>

definition reshape_1_m1 :: "ndarray \<Rightarrow> ndarray" where
  "reshape_1_m1 a = NDArray [1, prod_list (nd_shape a)] (nd_elems a)"

text \<open>The \<open>n\<close> consecutive vectors of length \<open>k\<close> of a row-major item list.\<close>

definition rows :: "nat \<Rightarrow> nat \<Rightarrow> 'a list \<Rightarrow> 'a list list" where
  "rows n k xs = map (\<lambda>i. take k (drop (i * k) xs)) [0..<n]"

text \<open>
  \<^verbatim>\<open>a @ w\<close> for the weight matrix \<open>w\<close> of shape \<open>(4, 3)\<close>, given by its entries \<open>w f c\<close>
  with \<open>f < 4\<close> and \<open>c < 3\<close>. The last axis of \<open>a\<close> must have length 4; every vector along
  it is multiplied with the matrix.
\<close>

definition dot_col :: "(nat \<Rightarrow> nat \<Rightarrow> real) \<Rightarrow> real list \<Rightarrow> nat \<Rightarrow> real" where
  "dot_col w x c = sum_list (map (\<lambda>f. x ! f * w f c) [0..<4])"

definition matmul :: "ndarray \<Rightarrow> (nat \<Rightarrow> nat \<Rightarrow> real) \<Rightarrow> exn + ndarray" where
  "matmul a w =
     (case nd_shape a of
        [] \<Rightarrow> Inl ValueError
      | d # ds \<Rightarrow>
          if last (d # ds) \<noteq> 4 then Inl ValueError
          else Inr (NDArray (butlast (d # ds) @ [3])
                 (concat (map (\<lambda>x. map (dot_col w x) [0..<3])
                    (rows (prod_list (butlast (d # ds))) 4 (nd_elems a))))))"

text \<open>Maximum of a vector: a reduction without identity, so an empty vector raises.\<close>

fun np_max :: "real list \<Rightarrow> exn + real" where
  "np_max [] = Inl ValueError"
| "np_max (x # xs) = Inr (fold max xs x)"

text \<open>
  \<^verbatim>\<open>np.argmax\<close> of a vector: the scan keeps the position of the first item that is
  strictly greater than everything before it.
\<close>

fun argmax_scan :: "real list \<Rightarrow> nat \<Rightarrow> real \<Rightarrow> nat \<Rightarrow> nat" where
  "argmax_scan [] i mp best = best"
| "argmax_scan (x # xs) i mp best =
     (if mp < x then argmax_scan xs (Suc i) x i else argmax_scan xs (Suc i) mp best)"

fun np_argmax :: "real list \<Rightarrow> exn + nat" where
  "np_argmax [] = Inl ValueError"
| "np_argmax (x # xs) = Inr (argmax_scan xs 1 x 0)"

section \<open>The classifier\<close>

definition MODEL_NAME :: string where
  "MODEL_NAME = ''iris-classifier''"

definition MODEL_VERSION :: string where
  "MODEL_VERSION = ''v1.0.0''"

definition CLASSES :: "string list" where
  "CLASSES = [''setosa'', ''versicolor'', ''virginica'']"

record IrisClassifier =
  loaded :: bool
  weights :: "nat \<Rightarrow> nat \<Rightarrow> real"

record prediction =
  probabilities :: "real list list"
  predicted_class :: "string list"
  confidence :: "real list"

text \<open>
  \<^verbatim>\<open>IrisClassifier.predict\<close>. For a two-dimensional input the steps are those of the
  source, row by row: logits, row maximum, exponentials of the shifted logits, division by
  the row sum, argmax, label lookup, confidence. A one-dimensional product has no axis 1.
  From three dimensions on, the reductions along axis 1 need that axis non-empty, and the
  label lookup then indexes the list of classes with an array, which raises
  \<^verbatim>\<open>TypeError\<close> as soon as there is one item to look up.
\<close>

definition predict :: "(nat \<Rightarrow> nat \<Rightarrow> real) \<Rightarrow> ndarray \<Rightarrow> exn + prediction" where
  "predict w inputs =
     (case matmul inputs w of
        Inl e \<Rightarrow> Inl e
      | Inr logits \<Rightarrow>
          (case nd_shape logits of
             [] \<Rightarrow> Inl AxisError
           | [c] \<Rightarrow> Inl AxisError
           | [n, c] \<Rightarrow>
               (let ls = rows n c (nd_elems logits) in
                case try_map np_max ls of
                  Inl e \<Rightarrow> Inl e
                | Inr ms \<Rightarrow>
                    (let ex = map2 (\<lambda>l m. map (\<lambda>x. exp (x - m)) l) ls ms;
                         probs = map (\<lambda>e. map (\<lambda>x. x / sum_list e) e) ex
                     in case try_map np_argmax probs of
                          Inl e \<Rightarrow> Inl e
                        | Inr predicted_idx \<Rightarrow>
                            (case try_map (getitem CLASSES) predicted_idx of
                               Inl e \<Rightarrow> Inl e
                             | Inr cls \<Rightarrow>
                                 (case try_map np_max probs of
                                    Inl e \<Rightarrow> Inl e
                                  | Inr conf \<Rightarrow>
                                      Inr \<lparr>probabilities = probs, predicted_class = cls,
                                           confidence = conf\<rparr>))))
           | d0 # d1 # ds \<Rightarrow>
               if d1 = 0 then Inl ValueError
               else if d0 = 0 then
                 Inr \<lparr>probabilities = [], predicted_class = [], confidence = []\<rparr>
               else Inl TypeError))"

section \<open>The metric registry\<close>

text \<open>
  The Prometheus client library keeps, per process, a registry that maps every time-series
  name to the collector that owns it. Creating a metric registers it: the names it would
  produce are its full name and that name with each suffix of its kind, and a name that the
  registry already holds is a duplicate, reported by \<^verbatim>\<open>ValueError\<close> with the registry left
  as it was. A counter's full name is its name without a final \<^verbatim>\<open>_total\<close>.
\<close>

datatype metric_class = Counter | Histogram | Gauge

record collector =
  kind :: metric_class
  full_name :: string
  documentation :: string
  labelnames :: "string list"
  upper_bounds :: "real list option"

type_synonym registry = "string \<rightharpoonup> collector"

definition build_full_name :: "metric_class \<Rightarrow> string \<Rightarrow> string" where
  "build_full_name k n =
     (if k = Counter \<and> 6 \<le> length n \<and> drop (length n - 6) n = ''_total''
      then take (length n - 6) n else n)"

fun type_suffixes :: "metric_class \<Rightarrow> string list" where
  "type_suffixes Counter = [''_total'', ''_created'']"
| "type_suffixes Histogram = [''_bucket'', ''_sum'', ''_count'', ''_created'']"
| "type_suffixes Gauge = []"

definition get_names :: "collector \<Rightarrow> string list" where
  "get_names c = full_name c # map (\<lambda>suffix. full_name c @ suffix) (type_suffixes (kind c))"

definition register :: "registry \<Rightarrow> collector \<Rightarrow> exn + registry" where
  "register reg c =
     (if list_ex (\<lambda>n. reg n \<noteq> None) (get_names c) then Inl ValueError
      else Inr (fold (\<lambda>n r. r(n \<mapsto> c)) (get_names c) reg))"

text \<open>
  The constructor of a metric class, \<^verbatim>\<open>metric_class(name, description, labels, **kwargs)\<close>.
  The only keyword argument the server passes is \<^verbatim>\<open>buckets\<close>, which no class but the
  histogram accepts (\<^verbatim>\<open>TypeError\<close>). The library's checks of the name, the label names
  and the buckets, each of which raises \<^verbatim>\<open>ValueError\<close>, are the parameter \<open>valid\<close>.
\<close>

definition new_metric ::
  "(metric_class \<Rightarrow> string \<Rightarrow> string list \<Rightarrow> real list option \<Rightarrow> bool) \<Rightarrow> registry \<Rightarrow>
   metric_class \<Rightarrow> string \<Rightarrow> string \<Rightarrow> string list \<Rightarrow> real list option \<Rightarrow>
   exn + collector \<times> registry" where
  "new_metric valid reg cls n description labels buckets =
     (if buckets \<noteq> None \<and> cls \<noteq> Histogram then Inl TypeError
      else if \<not> valid cls n labels buckets then Inl ValueError
      else
        (let c = \<lparr>kind = cls, full_name = build_full_name cls n, documentation = description,
                  labelnames = labels, upper_bounds = buckets\<rparr>
         in case register reg c of Inl e \<Rightarrow> Inl e | Inr reg' \<Rightarrow> Inr (c, reg')))"

text \<open>
  \<^verbatim>\<open>get_or_create_metric\<close>. The result is the metric, or Python's \<open>None\<close> when the lookup
  in the registry finds nothing; only \<^verbatim>\<open>ValueError\<close> is caught.
\<close>

definition get_or_create_metric ::
  "(metric_class \<Rightarrow> string \<Rightarrow> string list \<Rightarrow> real list option \<Rightarrow> bool) \<Rightarrow> registry \<Rightarrow>
   metric_class \<Rightarrow> string \<Rightarrow> string \<Rightarrow> string list option \<Rightarrow> real list option \<Rightarrow>
   exn + collector option \<times> registry" where
  "get_or_create_metric valid reg metric_class n description labels buckets =
     (case (case labels of
              None \<Rightarrow> new_metric valid reg metric_class n description [] buckets
            | Some [] \<Rightarrow> new_metric valid reg metric_class n description [] buckets
            | Some (l # ls) \<Rightarrow> new_metric valid reg metric_class n description (l # ls) buckets)
      of
        Inr (c, reg') \<Rightarrow> Inr (Some c, reg')
      | Inl ValueError \<Rightarrow> Inr (reg n, reg)
      | Inl e \<Rightarrow> Inl e)"

text \<open>
  The four module-level metrics, created in the order of the source against the registry
  \<open>reg0\<close> of the process.
\<close>

definition module_metrics ::
  "(metric_class \<Rightarrow> string \<Rightarrow> string list \<Rightarrow> real list option \<Rightarrow> bool) \<Rightarrow> registry \<Rightarrow>
   exn + (collector option \<times> collector option \<times> collector option \<times> collector option) \<times> registry"
  where
  "module_metrics valid reg0 =
     (case get_or_create_metric valid reg0 Counter ''inference_requests_total''
             ''Total inference requests'' (Some [''model'', ''status'']) None of
        Inl e \<Rightarrow> Inl e
      | Inr (request_count, reg1) \<Rightarrow>
     (case get_or_create_metric valid reg1 Histogram ''inference_request_duration_seconds''
             ''Inference latency in seconds'' (Some [''model''])
             (Some [1 / 100, 25 / 1000, 5 / 100, 1 / 10, 25 / 100, 5 / 10, 1, 25 / 10]) of
        Inl e \<Rightarrow> Inl e
      | Inr (request_latency, reg2) \<Rightarrow>
     (case get_or_create_metric valid reg2 Gauge ''inference_active_requests''
             ''Currently active inference requests'' None None of
        Inl e \<Rightarrow> Inl e
      | Inr (active_requests, reg3) \<Rightarrow>
     (case get_or_create_metric valid reg3 Gauge ''model_loaded''
             ''Whether model is loaded (1=yes 0=no)'' (Some [''model'']) None of
        Inl e \<Rightarrow> Inl e
      | Inr (model_loaded, reg4) \<Rightarrow>
          Inr ((request_count, request_latency, active_requests, model_loaded), reg4)))))"

section \<open>Protocol schemas\<close>

record InferenceInput =
  name :: string
  shape :: "int list"
  data_type :: string
  data :: "pyval list"

record InferenceRequest =
  id' :: "string option"
  inputs :: "InferenceInput list"

record InferenceOutput =
  name :: string
  shape :: "int list"
  data_type :: string
  data :: "pyval list"

record InferenceResponse =
  id' :: "string option"
  model_name :: string
  model_version :: string
  outputs :: "InferenceOutput list"

text \<open>
  \<^verbatim>\<open>HTTPException(status_code, detail)\<close>; the detail is a fixed text or the text of the
  exception that was caught.
\<close>

datatype detail = Text string | Str exn

datatype HTTPException = HTTPException (status_code: nat) (detail: detail)

text \<open>The status the HTTP layer sends: that of the exception, or 200 for a returned body.\<close>

fun http_status :: "HTTPException + 'a \<Rightarrow> nat" where
  "http_status (Inl e) = status_code e"
| "http_status (Inr body) = 200"

section \<open>The server\<close>

text \<open>
  The state of the process: the classifier and the four metric globals. A global is \<open>None\<close>
  when \<^verbatim>\<open>get_or_create_metric\<close> returned \<open>None\<close> for it, which is what the guards
  \<^verbatim>\<open>if REQUEST_COUNT:\<close> test. A counter holds a value per label tuple (model, status), the
  histogram the observations per model, the gauges their value.
\<close>

record server =
  model :: IrisClassifier
  REQUEST_COUNT :: "(string \<times> string \<Rightarrow> nat) option"
  REQUEST_LATENCY :: "(string \<Rightarrow> real list) option"
  ACTIVE_REQUESTS :: "int option"
  MODEL_LOADED :: "(string \<Rightarrow> int) option"

definition count_inc :: "string \<Rightarrow> server \<Rightarrow> server" where
  "count_inc status s =
     (case REQUEST_COUNT s of
        None \<Rightarrow> s
      | Some c \<Rightarrow>
          s\<lparr>REQUEST_COUNT := Some (c((MODEL_NAME, status) := c (MODEL_NAME, status) + 1))\<rparr>)"

definition latency_observe :: "real \<Rightarrow> server \<Rightarrow> server" where
  "latency_observe duration s =
     (case REQUEST_LATENCY s of
        None \<Rightarrow> s
      | Some h \<Rightarrow> s\<lparr>REQUEST_LATENCY := Some (h(MODEL_NAME := h MODEL_NAME @ [duration]))\<rparr>)"

definition active_inc :: "server \<Rightarrow> server" where
  "active_inc s =
     (case ACTIVE_REQUESTS s of None \<Rightarrow> s | Some g \<Rightarrow> s\<lparr>ACTIVE_REQUESTS := Some (g + 1)\<rparr>)"

definition active_dec :: "server \<Rightarrow> server" where
  "active_dec s =
     (case ACTIVE_REQUESTS s of None \<Rightarrow> s | Some g \<Rightarrow> s\<lparr>ACTIVE_REQUESTS := Some (g - 1)\<rparr>)"

text \<open>
  \<^verbatim>\<open>IrisClassifier.load\<close>; the matrix drawn by \<^verbatim>\<open>np.random.randn(4, 3)\<close> is the argument
  \<open>w\<close>.
\<close>

definition load :: "(nat \<Rightarrow> nat \<Rightarrow> real) \<Rightarrow> server \<Rightarrow> server" where
  "load w s =
     (let s' = s\<lparr>model := (model s)\<lparr>weights := w, loaded := True\<rparr>\<rparr>
      in case MODEL_LOADED s' of
           None \<Rightarrow> s'
         | Some g \<Rightarrow> s'\<lparr>MODEL_LOADED := Some (g(MODEL_NAME := 1))\<rparr>)"


definition health :: "server \<Rightarrow> string \<times> bool \<times> string" where
  "health s = (''ok'', loaded (model s), MODEL_NAME)"

text \<open>The two outputs of a response, built from the result of \<^verbatim>\<open>predict\<close>.\<close>

definition tolist :: "real list list \<Rightarrow> pyval list" where
  "tolist rs = map (\<lambda>r. PyList (map PyNum r)) rs"

definition make_response :: "InferenceRequest \<Rightarrow> prediction \<Rightarrow> exn + InferenceResponse" where
  "make_response request result =
     (case np_shape (PyList (tolist (probabilities result))) of
        None \<Rightarrow> Inl ValueError
      | Some sh \<Rightarrow>
          Inr \<lparr>id' = InferenceRequest.id' request,
               model_name = MODEL_NAME,
               model_version = MODEL_VERSION,
               outputs =
                 [\<lparr>name = ''probabilities'', shape = map int sh, data_type = ''FP32'',
                   data = tolist (probabilities result)\<rparr>,
                  \<lparr>name = ''predicted_class'',
                   shape = [int (length (predicted_class result))], data_type = ''BYTES'',
                   data = map PyStr (predicted_class result)\<rparr>]\<rparr>)"

text \<open>
  The first statements of the \<^verbatim>\<open>try\<close> block of \<^verbatim>\<open>infer\<close>: the first input's payload
  becomes an array, a one-dimensional array becomes one row, and the classifier runs.
\<close>

definition run_model ::
  "(string \<Rightarrow> real option) \<Rightarrow> server \<Rightarrow> InferenceRequest \<Rightarrow> exn + prediction" where
  "run_model pf s request =
     (case getitem (inputs request) 0 of
        Inl e \<Rightarrow> Inl e
      | Inr inp \<Rightarrow>
          (case np_array pf (InferenceInput.data inp) of
             Inl e \<Rightarrow> Inl e
           | Inr raw \<Rightarrow>
               predict (weights (model s)) (if ndim raw = 1 then reshape_1_m1 raw else raw)))"

text \<open>
  The array that reaches the classifier: the first two of these statements alone,
  \<^verbatim>\<open>np.array(request.inputs[0].data, dtype=np.float32)\<close> and the reshape of a
  one-dimensional array. \<open>run_model\<close> is \<^verbatim>\<open>predict\<close> applied to it.
\<close>

definition decode :: "(string \<Rightarrow> real option) \<Rightarrow> InferenceRequest \<Rightarrow> exn + ndarray" where
  "decode pf request =
     (case getitem (inputs request) 0 of
        Inl e \<Rightarrow> Inl e
      | Inr inp \<Rightarrow>
          (case np_array pf (InferenceInput.data inp) of
             Inl e \<Rightarrow> Inl e
           | Inr raw \<Rightarrow> Inr (if ndim raw = 1 then reshape_1_m1 raw else raw)))"

text \<open>The \<^verbatim>\<open>except Exception\<close> branch.\<close>

definition on_exception ::
  "exn \<Rightarrow> server \<Rightarrow> (HTTPException + InferenceResponse) \<times> server" where
  "on_exception e s = (Inl (HTTPException 500 (Str e)), count_inc ''error'' s)"

text \<open>
  \<^verbatim>\<open>infer\<close>. The two clock readings enter through their difference \<open>duration\<close>. The result
  is the raised \<^verbatim>\<open>HTTPException\<close> or the returned response, with the state afterwards.
\<close>

definition infer ::
  "(string \<Rightarrow> real option) \<Rightarrow> real \<Rightarrow> server \<Rightarrow> string \<Rightarrow> InferenceRequest \<Rightarrow>
   (HTTPException + InferenceResponse) \<times> server" where
  "infer pf duration s mname request =
     (if \<not> loaded (model s) then (Inl (HTTPException 503 (Text ''Model not ready'')), s)
      else
        (let s1 = active_inc s;
             (r, s2) =
               (case run_model pf s1 request of
                  Inl e \<Rightarrow> on_exception e s1
                | Inr result \<Rightarrow>
                    (let s' = latency_observe duration (count_inc ''success'' s1)
                     in case make_response request result of
                          Inl e \<Rightarrow> on_exception e s'
                        | Inr resp \<Rightarrow> (Inr resp, s')))
         in (r, active_dec s2)))"

text \<open>
  The calls that reach the process, and the state each leaves behind. The probes, the
  metadata document and the metrics page read the state only.
\<close>

datatype call =
    Load "nat \<Rightarrow> nat \<Rightarrow> real"
  | Health
  | Ready
  | ModelMetadata string
  | Infer real string InferenceRequest
  | Metrics

fun handle :: "(string \<Rightarrow> real option) \<Rightarrow> call \<Rightarrow> server \<Rightarrow> server" where
  "handle pf (Load w) s = load w s"
| "handle pf (Infer duration mname request) s = snd (infer pf duration s mname request)"
| "handle pf c s = s"





section \<open>Row-wise description of a prediction\<close>

text \<open>
  What \<^verbatim>\<open>predict\<close> computes for a batch, written per row; the lemmas below show that the
  definition above returns exactly this for a two-dimensional input with four columns.
\<close>

definition row_max :: "real list \<Rightarrow> real" where
  "row_max l = fold max (tl l) (hd l)"

definition softmax :: "real list \<Rightarrow> real list" where
  "softmax l = map (\<lambda>x. exp (x - row_max l) / sum_list (map (\<lambda>y. exp (y - row_max l)) l)) l"

definition first_argmax :: "real list \<Rightarrow> nat" where
  "first_argmax l = argmax_scan (tl l) 1 (hd l) 0"

definition logit_rows :: "(nat \<Rightarrow> nat \<Rightarrow> real) \<Rightarrow> nat \<Rightarrow> real list \<Rightarrow> real list list" where
  "logit_rows w n xs = map (\<lambda>x. map (dot_col w x) [0..<3]) (rows n 4 xs)"

definition batch_result :: "(nat \<Rightarrow> nat \<Rightarrow> real) \<Rightarrow> nat \<Rightarrow> real list \<Rightarrow> prediction" where
  "batch_result w n xs =
     \<lparr>probabilities = map softmax (logit_rows w n xs),
      predicted_class = map (\<lambda>l. CLASSES ! first_argmax (softmax l)) (logit_rows w n xs),
      confidence = map (\<lambda>l. row_max (softmax l)) (logit_rows w n xs)\<rparr>"

section \<open>Payloads that form a batch\<close>

text \<open>
  A scalar is convertible when \<^verbatim>\<open>np.array\<close> turns it into a number. A feature row is a
  list of four convertible scalars; a batch is one feature row, or a non-empty list of
  feature rows.
\<close>

definition convertible :: "(string \<Rightarrow> real option) \<Rightarrow> pyval \<Rightarrow> bool" where
  "convertible pf v = (case to_float32 pf v of Inl e \<Rightarrow> False | Inr x \<Rightarrow> True)"

definition feature_row :: "(string \<Rightarrow> real option) \<Rightarrow> pyval list \<Rightarrow> bool" where
  "feature_row pf xs = (length xs = 4 \<and> list_all (convertible pf) xs)"

definition is_batch :: "(string \<Rightarrow> real option) \<Rightarrow> pyval list \<Rightarrow> bool" where
  "is_batch pf xs =
     (feature_row pf xs \<or>
      (xs \<noteq> [] \<and> list_all (\<lambda>v. case v of PyList r \<Rightarrow> feature_row pf r | _ \<Rightarrow> False) xs))"

section \<open>Example values\<close>

text \<open>
  A loaded server with all-zero weights and fresh metrics, the same server before loading,
  a string parser that accepts nothing, and a few requests: the single sample of the test
  suite, a request without inputs, a payload of three items, the sample under a declared
  shape of three rows, and a payload of booleans.
\<close>

definition zero_weights :: "nat \<Rightarrow> nat \<Rightarrow> real" where
  "zero_weights f c = 0"

definition no_parse :: "string \<Rightarrow> real option" where
  "no_parse s = None"

definition ready_server :: server where
  "ready_server =
     \<lparr>model = \<lparr>loaded = True, weights = zero_weights\<rparr>,
      REQUEST_COUNT = Some (\<lambda>k. 0), REQUEST_LATENCY = Some (\<lambda>k. []),
      ACTIVE_REQUESTS = Some 0, MODEL_LOADED = Some (\<lambda>k. 0)\<rparr>"

definition cold_server :: server where
  "cold_server = ready_server\<lparr>model := \<lparr>loaded = False, weights = zero_weights\<rparr>\<rparr>"

definition sample_data :: "pyval list" where
  "sample_data = [PyNum (51 / 10), PyNum (35 / 10), PyNum (14 / 10), PyNum (2 / 10)]"

definition request_with :: "int list \<Rightarrow> pyval list \<Rightarrow> InferenceRequest" where
  "request_with sh xs =
     \<lparr>InferenceRequest.id' = Some ''test-001'',
      inputs = [\<lparr>InferenceInput.name = ''input'', InferenceInput.shape = sh,
                 InferenceInput.data_type = ''FP32'', InferenceInput.data = xs\<rparr>]\<rparr>"

definition sample_request :: InferenceRequest where
  "sample_request = request_with [1, 4] sample_data"


definition short_request :: InferenceRequest where
  "short_request = request_with [1, 3] [PyNum 1, PyNum 2, PyNum 3]"

definition misdeclared_request :: InferenceRequest where
  "misdeclared_request = request_with [3, 4] sample_data"

definition boolean_request :: InferenceRequest where
  "boolean_request = request_with [1, 4] [PyBool True, PyBool False, PyBool True, PyBool False]"

text \<open>
  For the registry: library checks that accept everything, and the latency histogram as
  the module creates it, with the registry that its creation leaves behind.
\<close>

definition all_valid :: "metric_class \<Rightarrow> string \<Rightarrow> string list \<Rightarrow> real list option \<Rightarrow> bool" where
  "all_valid cls n labels buckets = True"

definition latency_buckets :: "real list" where
  "latency_buckets = [1 / 100, 25 / 1000, 5 / 100, 1 / 10, 25 / 100, 5 / 10, 1, 25 / 10]"

definition latency_collector :: collector where
  "latency_collector =
     \<lparr>kind = Histogram, full_name = ''inference_request_duration_seconds'',
      documentation = ''Inference latency in seconds'', labelnames = [''model''],
      upper_bounds = Some latency_buckets\<rparr>"

definition latency_registry :: registry where
  "latency_registry =
     [''inference_request_duration_seconds'' \<mapsto> latency_collector,
      ''inference_request_duration_seconds_bucket'' \<mapsto> latency_collector,
      ''inference_request_duration_seconds_sum'' \<mapsto> latency_collector,
      ''inference_request_duration_seconds_count'' \<mapsto> latency_collector,
      ''inference_request_duration_seconds_created'' \<mapsto> latency_collector]"

section \<open>Basic facts\<close>

lemma try_map_Inr_length:
  "try_map f xs = Inr ys \<Longrightarrow> length ys = length xs"
  by (induction xs arbitrary: ys) (auto split: sum.splits)

lemma those_map_Some:
  "those (map f xs) = Some ys \<Longrightarrow> length ys = length xs \<and> (\<forall>i < length xs. f (xs ! i) = Some (ys ! i))"
proof (induction xs arbitrary: ys)
  case Nil
  then show ?case by simp
next
  case (Cons x xs)
  then obtain y ys' where y: "f x = Some y" and ys': "those (map f xs) = Some ys'" and eq: "ys = y # ys'"
    by (auto split: option.splits)
  from Cons.IH [OF ys'] show ?case
    using y eq by (auto simp: nth_Cons split: nat.splits)
qed

lemma np_shape_PyList_cases:
  assumes "np_shape (PyList xs) = Some sh"
  shows "(xs = [] \<and> sh = [0]) \<or>
         (xs \<noteq> [] \<and> (\<exists>sh'. sh = length xs # sh' \<and> (\<forall>x \<in> set xs. np_shape x = Some sh')))"
proof (cases xs)
  case Nil
  with assms show ?thesis by simp
next
  case (Cons x xs')
  from assms obtain shs where shs: "those (map np_shape xs) = Some shs"
    by (auto split: option.splits)
  from those_map_Some [OF shs] have len: "length shs = length xs"
    and nth: "\<forall>i < length xs. np_shape (xs ! i) = Some (shs ! i)" by auto
  from len Cons obtain s0 shs' where shs_eq: "shs = s0 # shs'" by (cases shs) auto
  from assms shs shs_eq have all: "list_all (\<lambda>s. s = s0) shs'" and sh: "sh = length xs # s0"
    by (auto split: if_splits)
  have "\<forall>s \<in> set shs. s = s0" using all shs_eq by (auto simp: list_all_iff)
  then have "\<forall>i < length xs. np_shape (xs ! i) = Some s0"
    using nth len by (metis nth_mem)
  then have "\<forall>x \<in> set xs. np_shape x = Some s0"
    by (metis in_set_conv_nth)
  with sh Cons show ?thesis by auto
qed

lemma np_leaves_count:
  "np_shape v = Some sh \<Longrightarrow> length (np_leaves v) = prod_list sh"
proof (induction v arbitrary: sh)
  case (PyList xs)
  from np_shape_PyList_cases [OF PyList.prems] show ?case
  proof (elim disjE conjE exE)
    assume "xs = []" "sh = [0]"
    then show ?thesis by simp
  next
    fix sh'
    assume ne: "xs \<noteq> []" and sh: "sh = length xs # sh'"
      and all: "\<forall>x \<in> set xs. np_shape x = Some sh'"
    have "\<forall>x \<in> set xs. length (np_leaves x) = prod_list sh'"
      using PyList.IH all by blast
    then have "map (\<lambda>x. length (np_leaves x)) xs = replicate (length xs) (prod_list sh')"
      by (simp add: map_replicate_const [symmetric] cong: map_cong)
    then have "length (concat (map np_leaves xs)) = length xs * prod_list sh'"
      by (simp add: length_concat comp_def sum_list_replicate)
    with sh show ?thesis by simp
  qed
qed simp_all

lemma try_map_all_Inr:
  "(\<And>x. x \<in> set xs \<Longrightarrow> f x = Inr (g x)) \<Longrightarrow> try_map f xs = Inr (map g xs)"
  by (induction xs) simp_all

lemma rows_length [simp]: "length (rows n k xs) = n"
  by (simp add: rows_def)

lemma rows_Suc:
  "rows (Suc n) k xs = take k xs # rows n k (drop k xs)"
proof -
  have "[0..<Suc n] = 0 # map Suc [0..<n]"
    by (simp add: upt_conv_Cons map_Suc_upt del: upt_Suc)
  then show ?thesis
    by (simp add: rows_def comp_def add.commute del: upt_Suc)
qed

lemma rows_concat:
  "(\<And>r. r \<in> set rs \<Longrightarrow> length r = k) \<Longrightarrow> rows (length rs) k (concat rs) = rs"
proof (induction rs)
  case Nil
  then show ?case by (simp add: rows_def)
next
  case (Cons r rs)
  then show ?case by (simp add: rows_Suc)
qed

lemma np_max_row_max: "l \<noteq> [] \<Longrightarrow> np_max l = Inr (row_max l)"
  by (cases l) (simp_all add: row_max_def)

lemma np_argmax_first: "l \<noteq> [] \<Longrightarrow> np_argmax l = Inr (first_argmax l)"
  by (cases l) (simp_all add: first_argmax_def)

lemma argmax_scan_bound:
  "best < i \<Longrightarrow> argmax_scan xs i mp best < i + length xs"
proof (induction xs arbitrary: i mp best)
  case Nil
  then show ?case by simp
next
  case (Cons x xs)
  have "argmax_scan xs (Suc i) x i < Suc i + length xs"
    by (rule Cons.IH) simp
  moreover have "argmax_scan xs (Suc i) mp best < Suc i + length xs"
    by (rule Cons.IH) (use Cons.prems in simp)
  ultimately show ?case by simp
qed

lemma first_argmax_less: "l \<noteq> [] \<Longrightarrow> first_argmax l < length l"
  using argmax_scan_bound [of 0 1 "tl l" "hd l"] by (cases l) (simp_all add: first_argmax_def)

lemma logit_rows_length [simp]: "length (logit_rows w n xs) = n"
  by (simp add: logit_rows_def)

lemma logit_rows_row: "l \<in> set (logit_rows w n xs) \<Longrightarrow> length l = 3"
  by (auto simp: logit_rows_def)

lemma softmax_length [simp]: "length (softmax l) = length l"
  by (simp add: softmax_def)

lemma map2_map_same: "map2 f xs (map g xs) = map (\<lambda>x. f x (g x)) xs"
  by (induction xs) simp_all

lemma predict_2d:
  assumes "nd_shape a = [n, 4]"
  shows "predict w a =
    Inr \<lparr>probabilities = map softmax (logit_rows w n (nd_elems a)),
         predicted_class = map (\<lambda>l. CLASSES ! first_argmax (softmax l)) (logit_rows w n (nd_elems a)),
         confidence = map (\<lambda>l. row_max (softmax l)) (logit_rows w n (nd_elems a))\<rparr>"
proof -
  let ?L = "logit_rows w n (nd_elems a)"
  have mm: "matmul a w = Inr (NDArray [n, 3] (concat ?L))"
    using assms by (simp add: matmul_def logit_rows_def)
  have rows: "rows n 3 (concat ?L) = ?L"
    using rows_concat [of ?L 3] by (simp add: logit_rows_row)
  have ne: "\<And>l. l \<in> set ?L \<Longrightarrow> l \<noteq> []"
    using logit_rows_row by fastforce
  have m1: "try_map np_max ?L = Inr (map row_max ?L)"
    by (rule try_map_all_Inr) (simp add: np_max_row_max ne)
  have probs: "map (\<lambda>e. map (\<lambda>x. x / sum_list e) e)
          (map2 (\<lambda>l m. map (\<lambda>x. exp (x - m)) l) ?L (map row_max ?L)) = map softmax ?L"
    by (simp add: map2_map_same softmax_def comp_def)
  have ne': "\<And>p. p \<in> set (map softmax ?L) \<Longrightarrow> p \<noteq> []"
    using ne by (auto simp: softmax_def)
  have m2: "try_map np_argmax (map softmax ?L) = Inr (map first_argmax (map softmax ?L))"
    by (rule try_map_all_Inr) (simp add: np_argmax_first ne')
  have m3: "try_map (getitem CLASSES) (map first_argmax (map softmax ?L))
      = Inr (map (\<lambda>i. CLASSES ! i) (map first_argmax (map softmax ?L)))"
  proof (rule try_map_all_Inr)
    fix i assume "i \<in> set (map first_argmax (map softmax ?L))"
    then obtain l where l: "l \<in> set ?L" and i: "i = first_argmax (softmax l)" by auto
    have "i < length (softmax l)"
      unfolding i by (rule first_argmax_less) (use ne' l in simp)
    then have "i < 3" using logit_rows_row [OF l] by simp
    then show "getitem CLASSES i = Inr (CLASSES ! i)"
      by (simp add: getitem_def CLASSES_def)
  qed
  have m4: "try_map np_max (map softmax ?L) = Inr (map row_max (map softmax ?L))"
    by (rule try_map_all_Inr) (simp add: np_max_row_max ne')
  show ?thesis
    unfolding predict_def mm sum.case ndarray.sel list.case Let_def rows m1 probs m2 m3 m4
    by (simp add: comp_def)
qed

lemma predict_Inr_shape:
  assumes "predict w a = Inr r"
  shows "(\<exists>n. nd_shape a = [n, 4]) \<or> (3 \<le> length (nd_shape a) \<and> hd (nd_shape a) = 0)"
proof -
  from assms obtain d ds where sh: "nd_shape a = d # ds" and last4: "last (d # ds) = 4"
    by (auto simp: predict_def matmul_def split: list.splits if_splits)
  show ?thesis
  proof (cases ds)
    case Nil
    with assms sh last4 show ?thesis by (simp add: predict_def matmul_def)
  next
    case (Cons k ks)
    note ds = Cons
    show ?thesis
    proof (cases ks)
      case Nil
      with ds sh last4 show ?thesis by simp
    next
      case (Cons k' ks')
      with assms sh ds last4 have "d = 0"
        by (auto simp: predict_def matmul_def split: list.splits if_splits)
      with sh ds Cons show ?thesis by simp
    qed
  qed
qed

lemma argmax_scan_invariant:
  assumes "best < length pre" and "mp = pre ! best"
    and "\<forall>j < length pre. pre ! j \<le> mp" and "\<forall>j < best. pre ! j < mp"
  shows "argmax_scan xs (length pre) mp best < length (pre @ xs) \<and>
         (\<forall>j < length (pre @ xs). (pre @ xs) ! j \<le> (pre @ xs) ! argmax_scan xs (length pre) mp best) \<and>
         (\<forall>j < argmax_scan xs (length pre) mp best.
             (pre @ xs) ! j < (pre @ xs) ! argmax_scan xs (length pre) mp best)"
  using assms
proof (induction xs arbitrary: pre mp best)
  case Nil
  then show ?case by simp
next
  case (Cons x xs)
  show ?case
  proof (cases "mp < x")
    case True
    have "argmax_scan xs (length (pre @ [x])) x (length pre) < length ((pre @ [x]) @ xs) \<and>
         (\<forall>j < length ((pre @ [x]) @ xs). ((pre @ [x]) @ xs) ! j
              \<le> ((pre @ [x]) @ xs) ! argmax_scan xs (length (pre @ [x])) x (length pre)) \<and>
         (\<forall>j < argmax_scan xs (length (pre @ [x])) x (length pre).
             ((pre @ [x]) @ xs) ! j < ((pre @ [x]) @ xs) ! argmax_scan xs (length (pre @ [x])) x (length pre))"
    proof (rule Cons.IH)
      show "length pre < length (pre @ [x])" by simp
      show "x = (pre @ [x]) ! length pre" by simp
      show "\<forall>j<length (pre @ [x]). (pre @ [x]) ! j \<le> x"
        using Cons.prems(3) True by (auto simp: nth_append less_Suc_eq)
      show "\<forall>j<length pre. (pre @ [x]) ! j < x"
        using Cons.prems(3) True by (auto simp: nth_append)
    qed
    with True show ?thesis by simp
  next
    case False
    have "argmax_scan xs (length (pre @ [x])) mp best < length ((pre @ [x]) @ xs) \<and>
         (\<forall>j < length ((pre @ [x]) @ xs). ((pre @ [x]) @ xs) ! j
              \<le> ((pre @ [x]) @ xs) ! argmax_scan xs (length (pre @ [x])) mp best) \<and>
         (\<forall>j < argmax_scan xs (length (pre @ [x])) mp best.
             ((pre @ [x]) @ xs) ! j < ((pre @ [x]) @ xs) ! argmax_scan xs (length (pre @ [x])) mp best)"
    proof (rule Cons.IH)
      show "best < length (pre @ [x])" using Cons.prems(1) by simp
      show "mp = (pre @ [x]) ! best" using Cons.prems(1,2) by (simp add: nth_append)
      show "\<forall>j<length (pre @ [x]). (pre @ [x]) ! j \<le> mp"
        using Cons.prems(3) False by (auto simp: nth_append less_Suc_eq)
      show "\<forall>j<best. (pre @ [x]) ! j < mp"
        using Cons.prems(1,4) by (auto simp: nth_append)
    qed
    with False show ?thesis by simp
  qed
qed

lemma first_argmax_props:
  assumes "l \<noteq> []"
  shows "first_argmax l < length l"
    and "\<forall>j < length l. l ! j \<le> l ! first_argmax l"
    and "\<forall>j < first_argmax l. l ! j < l ! first_argmax l"
proof -
  from assms obtain x xs where l: "l = x # xs" by (cases l) auto
  have "argmax_scan xs (length [x]) x 0 < length ([x] @ xs) \<and>
         (\<forall>j < length ([x] @ xs). ([x] @ xs) ! j \<le> ([x] @ xs) ! argmax_scan xs (length [x]) x 0) \<and>
         (\<forall>j < argmax_scan xs (length [x]) x 0.
             ([x] @ xs) ! j < ([x] @ xs) ! argmax_scan xs (length [x]) x 0)"
    by (rule argmax_scan_invariant) simp_all
  then show "first_argmax l < length l"
    and "\<forall>j < length l. l ! j \<le> l ! first_argmax l"
    and "\<forall>j < first_argmax l. l ! j < l ! first_argmax l"
    by (simp_all add: l first_argmax_def)
qed

lemma those_map_const:
  "(\<And>x. x \<in> set xs \<Longrightarrow> f x = Some c) \<Longrightarrow> those (map f xs) = Some (replicate (length xs) c)"
  by (induction xs) simp_all

lemma np_shape_uniform:
  assumes "xs \<noteq> []" and "\<And>x. x \<in> set xs \<Longrightarrow> np_shape x = Some sh"
  shows "np_shape (PyList xs) = Some (length xs # sh)"
proof -
  have "those (map np_shape xs) = Some (replicate (length xs) sh)"
    by (rule those_map_const) (rule assms(2))
  moreover obtain n where "length xs = Suc n" using assms(1) by (cases xs) auto
  ultimately show ?thesis by (simp add: list_all_iff)
qed

lemma np_shape_numbers: "np_shape (PyList (map PyNum r)) = Some [length r]"
proof (cases r)
  case Nil
  then show ?thesis by simp
next
  case (Cons x xs)
  have "np_shape (PyList (map PyNum r)) = Some (length (map PyNum r) # [])"
    by (rule np_shape_uniform) (use Cons in auto)
  then show ?thesis by simp
qed

lemma np_shape_tolist:
  assumes "rs \<noteq> []" and "\<And>r. r \<in> set rs \<Longrightarrow> length r = k"
  shows "np_shape (PyList (tolist rs)) = Some [length rs, k]"
proof -
  have "np_shape (PyList (tolist rs)) = Some (length (tolist rs) # [k])"
  proof (rule np_shape_uniform)
    show "tolist rs \<noteq> []" using assms(1) by (simp add: tolist_def)
    fix x assume "x \<in> set (tolist rs)"
    then obtain r where "r \<in> set rs" and "x = PyList (map PyNum r)"
      by (auto simp: tolist_def)
    then show "np_shape x = Some [k]"
      using assms(2) np_shape_numbers [of r] by simp
  qed
  then show ?thesis by (simp add: tolist_def)
qed

lemma predict_2d': "nd_shape a = [n, 4] \<Longrightarrow> predict w a = Inr (batch_result w n (nd_elems a))"
  by (simp add: predict_2d batch_result_def)

lemma np_array_Inr:
  assumes "np_array pf xs = Inr a"
  shows "np_shape (PyList xs) = Some (nd_shape a)"
    and "length (np_leaves (PyList xs)) = prod_list (nd_shape a)"
    and "try_map (to_float32 pf) (np_leaves (PyList xs)) = Inr (nd_elems a)"
proof -
  from assms obtain sh vs where sh: "np_shape (PyList xs) = Some sh"
    and vs: "try_map (to_float32 pf) (np_leaves (PyList xs)) = Inr vs"
    and a: "a = NDArray sh vs"
    by (auto simp: np_array_def simp del: np_shape.simps np_leaves.simps
        split: option.splits sum.splits)
  show "np_shape (PyList xs) = Some (nd_shape a)" using sh a by simp
  show "length (np_leaves (PyList xs)) = prod_list (nd_shape a)"
    using np_leaves_count [OF sh] a by simp
  show "try_map (to_float32 pf) (np_leaves (PyList xs)) = Inr (nd_elems a)"
    using vs a by simp
qed

lemma run_model_Inr:
  assumes "run_model pf s request = Inr r"
  shows "\<exists>inp rest a N.
           inputs request = inp # rest \<and>
           np_array pf (InferenceInput.data inp) = Inr a \<and>
           (nd_shape a = [4] \<and> N = 1 \<or> nd_shape a = [N, 4]) \<and> 0 < N \<and>
           length (np_leaves (PyList (InferenceInput.data inp))) = 4 * N \<and>
           r = batch_result (weights (model s)) N (nd_elems a)"
proof -
  from assms obtain inp rest where inputs: "inputs request = inp # rest"
    by (cases "inputs request") (auto simp: run_model_def getitem_def)
  from assms inputs obtain a where a: "np_array pf (InferenceInput.data inp) = Inr a"
    and p: "predict (weights (model s)) (if ndim a = 1 then reshape_1_m1 a else a) = Inr r"
    by (auto simp: run_model_def getitem_def split: sum.splits)
  note sh = np_array_Inr(1) [OF a] and cnt = np_array_Inr(2) [OF a]
  let ?w = "weights (model s)"
  show ?thesis
  proof (cases "ndim a = 1")
    case True
    then obtain k where k: "nd_shape a = [k]"
      by (cases "nd_shape a") (auto simp: ndim_def)
    from p True have p': "predict ?w (reshape_1_m1 a) = Inr r" by simp
    from predict_Inr_shape [OF p'] k have k4: "k = 4"
      by (auto simp: reshape_1_m1_def)
    have "nd_shape (reshape_1_m1 a) = [1, 4]" using k k4 by (simp add: reshape_1_m1_def)
    from predict_2d' [OF this, of ?w] p' have "r = batch_result ?w 1 (nd_elems a)"
      by (simp add: reshape_1_m1_def)
    with inputs a k k4 cnt show ?thesis by auto
  next
    case False
    with p have p': "predict ?w a = Inr r" by simp
    from predict_Inr_shape [OF p'] show ?thesis
    proof
      assume "\<exists>n. nd_shape a = [n, 4]"
      then obtain n where n: "nd_shape a = [n, 4]" ..
      from np_shape_PyList_cases [OF sh] n have "0 < n" by auto
      moreover from predict_2d' [OF n, of ?w] p' have "r = batch_result ?w n (nd_elems a)" by simp
      ultimately show ?thesis using inputs a n cnt by auto
    next
      assume "3 \<le> length (nd_shape a) \<and> hd (nd_shape a) = 0"
      with np_shape_PyList_cases [OF sh] have False by auto
      then show ?thesis ..
    qed
  qed
qed

lemma batch_result_lengths:
  "length (probabilities (batch_result w n xs)) = n"
  "length (predicted_class (batch_result w n xs)) = n"
  "length (confidence (batch_result w n xs)) = n"
  "p \<in> set (probabilities (batch_result w n xs)) \<Longrightarrow> length p = 3"
  by (auto simp: batch_result_def dest: logit_rows_row)

lemma make_response_batch:
  assumes "0 < n"
  shows "make_response request (batch_result w n xs) =
     Inr \<lparr>InferenceResponse.id' = InferenceRequest.id' request,
          model_name = MODEL_NAME,
          model_version = MODEL_VERSION,
          outputs =
            [\<lparr>InferenceOutput.name = ''probabilities'', shape = [int n, 3], data_type = ''FP32'',
              data = tolist (probabilities (batch_result w n xs))\<rparr>,
             \<lparr>InferenceOutput.name = ''predicted_class'', shape = [int n], data_type = ''BYTES'',
              data = map PyStr (predicted_class (batch_result w n xs))\<rparr>]\<rparr>"
proof -
  have "np_shape (PyList (tolist (probabilities (batch_result w n xs))))
      = Some [length (probabilities (batch_result w n xs)), 3]"
  proof (rule np_shape_tolist)
    have "length (probabilities (batch_result w n xs)) \<noteq> 0"
      using assms by (simp add: batch_result_lengths)
    then show "probabilities (batch_result w n xs) \<noteq> []" by fastforce
  qed (rule batch_result_lengths(4))
  then show ?thesis
    by (simp add: make_response_def batch_result_lengths del: np_shape.simps)
qed

lemma model_ops [simp]:
  "model (count_inc st s) = model s"
  "model (latency_observe d s) = model s"
  "model (active_inc s) = model s"
  "model (active_dec s) = model s"
  by (simp_all add: count_inc_def latency_observe_def active_inc_def active_dec_def split: option.splits)

lemma run_model_state:
  "model s = model t \<Longrightarrow> run_model pf s request = run_model pf t request"
  unfolding run_model_def by (erule subst) (rule refl)

lemma infer_not_loaded:
  "\<not> loaded (model s) \<Longrightarrow>
   infer pf duration s mname request = (Inl (HTTPException 503 (Text ''Model not ready'')), s)"
  by (simp add: infer_def)

lemma infer_exception:
  assumes "loaded (model s)" and "run_model pf s request = Inl e"
  shows "infer pf duration s mname request =
      (Inl (HTTPException 500 (Str e)), active_dec (count_inc ''error'' (active_inc s)))"
proof -
  have "run_model pf (active_inc s) request = Inl e"
    using assms(2) run_model_state [of "active_inc s" s] by simp
  then show ?thesis using assms(1) by (simp add: infer_def on_exception_def)
qed

lemma run_model_Inr_batch:
  assumes "run_model pf s request = Inr r"
  shows "\<exists>N a. 0 < N \<and> r = batch_result (weights (model s)) N (nd_elems a)"
proof -
  from run_model_Inr [OF assms] obtain inp rest a N where
    "inputs request = inp # rest \<and>
           np_array pf (InferenceInput.data inp) = Inr a \<and>
           (nd_shape a = [4] \<and> N = 1 \<or> nd_shape a = [N, 4]) \<and> 0 < N \<and>
           length (np_leaves (PyList (InferenceInput.data inp))) = 4 * N \<and>
           r = batch_result (weights (model s)) N (nd_elems a)"
    by (elim exE)
  then show ?thesis by (intro exI [of _ N] exI [of _ a]) simp
qed

lemma make_response_batch_ex:
  assumes "0 < N"
  shows "\<exists>resp. make_response request (batch_result w N xs) = Inr resp"
  unfolding make_response_batch [OF assms] by (rule exI) (rule refl)

lemma infer_success:
  assumes "loaded (model s)" and "run_model pf s request = Inr r"
  shows "\<exists>resp. make_response request r = Inr resp \<and>
      infer pf duration s mname request =
      (Inr resp, active_dec (latency_observe duration (count_inc ''success'' (active_inc s))))"
proof -
  have rm: "run_model pf (active_inc s) request = Inr r"
    using assms(2) run_model_state [of "active_inc s" s] by simp
  from run_model_Inr_batch [OF assms(2)] obtain N a where N: "0 < N"
    and r: "r = batch_result (weights (model s)) N (nd_elems a)" by (elim exE conjE)
  from make_response_batch_ex [OF N, of request "weights (model s)" "nd_elems a"]
  obtain resp where mr: "make_response request r = Inr resp"
    unfolding r by (elim exE)
  have "infer pf duration s mname request =
      (Inr resp, active_dec (latency_observe duration (count_inc ''success'' (active_inc s))))"
    using assms(1) by (simp add: infer_def rm mr)
  with mr show ?thesis by (intro exI [of _ resp] conjI)
qed

lemma metric_fields [simp]:
  "ACTIVE_REQUESTS (count_inc st s) = ACTIVE_REQUESTS s"
  "ACTIVE_REQUESTS (latency_observe d s) = ACTIVE_REQUESTS s"
  "REQUEST_COUNT (latency_observe d s) = REQUEST_COUNT s"
  "REQUEST_COUNT (active_inc s) = REQUEST_COUNT s"
  "REQUEST_COUNT (active_dec s) = REQUEST_COUNT s"
  "REQUEST_LATENCY (count_inc st s) = REQUEST_LATENCY s"
  "REQUEST_LATENCY (active_inc s) = REQUEST_LATENCY s"
  "REQUEST_LATENCY (active_dec s) = REQUEST_LATENCY s"
  "MODEL_LOADED (count_inc st s) = MODEL_LOADED s"
  "MODEL_LOADED (latency_observe d s) = MODEL_LOADED s"
  "MODEL_LOADED (active_inc s) = MODEL_LOADED s"
  "MODEL_LOADED (active_dec s) = MODEL_LOADED s"
  by (simp_all add: count_inc_def latency_observe_def active_inc_def active_dec_def
      split: option.splits)



lemma infer_cases:
  obtains (not_ready) "\<not> loaded (model s)"
      "infer pf duration s mname request = (Inl (HTTPException 503 (Text ''Model not ready'')), s)"
  | (failed) e where "loaded (model s)" "run_model pf s request = Inl e"
      "infer pf duration s mname request =
         (Inl (HTTPException 500 (Str e)), active_dec (count_inc ''error'' (active_inc s)))"
  | (succeeded) r resp where "loaded (model s)" "run_model pf s request = Inr r"
      "make_response request r = Inr resp"
      "infer pf duration s mname request =
         (Inr resp, active_dec (latency_observe duration (count_inc ''success'' (active_inc s))))"
proof (cases "loaded (model s)")
  case False
  then show ?thesis using not_ready infer_not_loaded by blast
next
  case True
  show ?thesis
  proof (cases "run_model pf s request")
    case (Inl e)
    then show ?thesis using failed True infer_exception by blast
  next
    case (Inr r)
    from infer_success [OF True Inr, of duration mname] obtain resp where
      "make_response request r = Inr resp"
      "infer pf duration s mname request =
         (Inr resp, active_dec (latency_observe duration (count_inc ''success'' (active_inc s))))"
      by (elim exE conjE)
    then show ?thesis using succeeded True Inr by blast
  qed
qed

lemma final_state_error:
  "active_dec (count_inc ''error'' (active_inc s)) = count_inc ''error'' s"
  by (cases "ACTIVE_REQUESTS s"; cases "REQUEST_COUNT s")
     (auto simp: active_dec_def active_inc_def count_inc_def intro!: server.equality)

lemma final_state_success:
  "active_dec (latency_observe d (count_inc ''success'' (active_inc s)))
     = latency_observe d (count_inc ''success'' s)"
  by (cases "ACTIVE_REQUESTS s"; cases "REQUEST_COUNT s"; cases "REQUEST_LATENCY s")
     (auto simp: active_dec_def active_inc_def count_inc_def latency_observe_def
           intro!: server.equality)

lemma infer_final_state:
  "snd (infer pf duration s mname request) =
     (if \<not> loaded (model s) then s
      else case run_model pf s request of
             Inl e \<Rightarrow> count_inc ''error'' s
           | Inr r \<Rightarrow> latency_observe duration (count_inc ''success'' s))"
  by (cases rule: infer_cases [of s pf duration mname request])
     (simp_all add: final_state_error final_state_success)

lemma infer_model [simp]: "model (snd (infer pf duration s mname request)) = model s"
  by (simp add: infer_final_state split: sum.splits)

lemma handle_loaded: "loaded (model s) \<Longrightarrow> loaded (model (handle pf c s))"
  by (cases c) (simp_all add: load_def Let_def split: option.splits)

lemma fold_handle_loaded: "loaded (model s) \<Longrightarrow> loaded (model (fold (handle pf) cs s))"
  by (induction cs arbitrary: s) (simp_all add: handle_loaded)


lemma predict_Inr_cases:
  assumes "predict w a = Inr r"
  shows "(\<exists>n. nd_shape a = [n, 4] \<and> r = batch_result w n (nd_elems a)) \<or>
         (3 \<le> length (nd_shape a) \<and> hd (nd_shape a) = 0 \<and>
          r = \<lparr>probabilities = [], predicted_class = [], confidence = []\<rparr>)"
proof -
  from predict_Inr_shape [OF assms] show ?thesis
  proof
    assume "\<exists>n. nd_shape a = [n, 4]"
    then obtain n where n: "nd_shape a = [n, 4]" ..
    from predict_2d' [OF n, of w] assms have "r = batch_result w n (nd_elems a)" by simp
    with n show ?thesis by blast
  next
    assume h: "3 \<le> length (nd_shape a) \<and> hd (nd_shape a) = 0"
    then obtain d1 d2 ds where sh: "nd_shape a = 0 # d1 # d2 # ds"
      by (cases "nd_shape a"; cases "tl (nd_shape a)"; cases "tl (tl (nd_shape a))") auto
    from assms sh have "r = \<lparr>probabilities = [], predicted_class = [], confidence = []\<rparr>"
      by (auto simp: predict_def matmul_def split: if_splits list.splits)
    with h show ?thesis by blast
  qed
qed

lemma dot_col_zero [simp]: "dot_col zero_weights x c = 0"
  by (simp add: dot_col_def zero_weights_def)

lemma logit_rows_zero_1: "logit_rows zero_weights (Suc 0) xs = [[0, 0, 0]]"
  by (simp add: logit_rows_def rows_def upt_rec numeral_eq_Suc del: upt.simps)

lemma softmax_zero3: "softmax [0, 0, 0] = [1 / 3, 1 / 3, 1 / 3]"
  by (simp add: softmax_def row_max_def)

lemma first_argmax_third3: "first_argmax [1 / 3, 1 / 3, 1 / 3] = 0"
  by (simp add: first_argmax_def)

lemma batch_result_zero_1:
  "batch_result zero_weights (Suc 0) xs =
     \<lparr>probabilities = [[1 / 3, 1 / 3, 1 / 3]], predicted_class = [''setosa''],
      confidence = [1 / 3]\<rparr>"
  by (simp add: batch_result_def logit_rows_zero_1 softmax_zero3 first_argmax_third3
      CLASSES_def row_max_def)

lemma np_array_sample:
  "np_array pf sample_data = Inr (NDArray [4] [51 / 10, 35 / 10, 14 / 10, 2 / 10])"
  by (simp add: np_array_def sample_data_def)

lemma run_model_sample:
  "run_model pf ready_server (request_with sh sample_data) =
     Inr \<lparr>probabilities = [[1 / 3, 1 / 3, 1 / 3]], predicted_class = [''setosa''],
          confidence = [1 / 3]\<rparr>"
proof -
  have "predict zero_weights (NDArray [1, 4] [51 / 10, 35 / 10, 14 / 10, 2 / 10]) =
      Inr (batch_result zero_weights 1 [51 / 10, 35 / 10, 14 / 10, 2 / 10])"
    using predict_2d' [of "NDArray [1, 4] [51 / 10, 35 / 10, 14 / 10, 2 / 10]" 1 zero_weights]
    by simp
  then show ?thesis
    by (simp add: run_model_def request_with_def getitem_def np_array_sample ndim_def
        reshape_1_m1_def ready_server_def batch_result_zero_1)
qed

lemma make_response_sample:
  "make_response (request_with sh sample_data)
     \<lparr>probabilities = [[1 / 3, 1 / 3, 1 / 3]], predicted_class = [''setosa''],
      confidence = [1 / 3]\<rparr> =
   Inr \<lparr>InferenceResponse.id' = Some ''test-001'', model_name = MODEL_NAME,
        model_version = MODEL_VERSION,
        outputs =
          [\<lparr>InferenceOutput.name = ''probabilities'', shape = [1, 3], data_type = ''FP32'',
            data = [PyList [PyNum (1 / 3), PyNum (1 / 3), PyNum (1 / 3)]]\<rparr>,
           \<lparr>InferenceOutput.name = ''predicted_class'', shape = [1], data_type = ''BYTES'',
            data = [PyStr ''setosa'']\<rparr>]\<rparr>"
  by (simp add: make_response_def tolist_def request_with_def)

lemma infer_sample:
  "infer pf d ready_server m (request_with sh sample_data) =
     (Inr \<lparr>InferenceResponse.id' = Some ''test-001'', model_name = MODEL_NAME,
        model_version = MODEL_VERSION,
        outputs =
          [\<lparr>InferenceOutput.name = ''probabilities'', shape = [1, 3], data_type = ''FP32'',
            data = [PyList [PyNum (1 / 3), PyNum (1 / 3), PyNum (1 / 3)]]\<rparr>,
           \<lparr>InferenceOutput.name = ''predicted_class'', shape = [1], data_type = ''BYTES'',
            data = [PyStr ''setosa'']\<rparr>]\<rparr>,
      latency_observe d (count_inc ''success'' ready_server))"
proof -
  have l: "loaded (model ready_server)" by (simp add: ready_server_def)
  from infer_success [OF l run_model_sample, where duration = d and mname = m and pf = pf and sh1 = sh]
  show ?thesis by (auto simp: make_response_sample final_state_success)
qed

lemma run_model_short: "run_model pf ready_server short_request = Inl ValueError"
  by (simp add: run_model_def short_request_def request_with_def getitem_def np_array_def
      ndim_def reshape_1_m1_def predict_def matmul_def)

lemma infer_short:
  "infer pf d ready_server m short_request =
     (Inl (HTTPException 500 (Str ValueError)), count_inc ''error'' ready_server)"
proof -
  have l: "loaded (model ready_server)" by (simp add: ready_server_def)
  from infer_exception [OF l run_model_short, of pf d m]
  show ?thesis by (simp add: final_state_error)
qed

lemma run_model_drop_declared:
  assumes "map InferenceInput.data (inputs r1) = map InferenceInput.data (inputs r2)"
  shows "run_model pf s r1 = run_model pf s r2"
proof (cases "inputs r1")
  case Nil
  with assms have "inputs r2 = []" by simp
  with Nil show ?thesis by (simp add: run_model_def getitem_def)
next
  case (Cons i1 is1)
  with assms obtain i2 is2 where 2: "inputs r2 = i2 # is2"
    and d: "InferenceInput.data i1 = InferenceInput.data i2"
    by (cases "inputs r2") auto
  with Cons show ?thesis by (simp add: run_model_def getitem_def)
qed

lemma infer_drop_declared:
  assumes "map InferenceInput.data (inputs r1) = map InferenceInput.data (inputs r2)"
    and "InferenceRequest.id' r1 = InferenceRequest.id' r2"
  shows "infer pf duration s mname r1 = infer pf duration s mname r2"
proof -
  have rm: "run_model pf t r1 = run_model pf t r2" for t
    by (rule run_model_drop_declared [OF assms(1)])
  have mr: "make_response r1 = make_response r2"
    by (rule ext) (simp only: make_response_def assms(2))
  show ?thesis unfolding infer_def rm mr ..
qed

lemma run_model_row:
  assumes "np_array pf xs = Inr (NDArray sh vs)" and "sh = [4] \<or> sh = [1, 4]"
  shows "run_model pf ready_server (request_with dsh xs) =
     Inr \<lparr>probabilities = [[1 / 3, 1 / 3, 1 / 3]], predicted_class = [''setosa''],
          confidence = [1 / 3]\<rparr>"
proof -
  have "predict zero_weights (NDArray [1, 4] vs) = Inr (batch_result zero_weights 1 vs)"
    using predict_2d' [of "NDArray [1, 4] vs" 1 zero_weights] by simp
  then show ?thesis
    using assms
    by (auto simp: run_model_def request_with_def getitem_def ndim_def
        reshape_1_m1_def ready_server_def batch_result_zero_1)
qed

lemma infer_row_status:
  assumes "np_array pf xs = Inr (NDArray sh vs)" and "sh = [4] \<or> sh = [1, 4]"
  shows "http_status (fst (infer pf d ready_server m (request_with dsh xs))) = 200"
proof -
  have l: "loaded (model ready_server)" by (simp add: ready_server_def)
  from infer_success [OF l run_model_row [OF assms], where duration = d and mname = m and dsh1 = dsh]
  show ?thesis by auto
qed

lemma name_in_get_names:
  "n \<in> set (get_names \<lparr>kind = cls, full_name = build_full_name cls n, documentation = d,
                        labelnames = ls, upper_bounds = b\<rparr>)"
proof (cases "cls = Counter \<and> 6 \<le> length n \<and> drop (length n - 6) n = ''_total''")
  case True
  then have "take (length n - 6) n @ ''_total'' = n"
    by (metis append_take_drop_id)
  with True show ?thesis by (simp add: get_names_def build_full_name_def)
next
  case False
  then show ?thesis by (auto simp: get_names_def build_full_name_def)
qed

lemma register_duplicate:
  assumes "reg n = Some c'" and "n \<in> set (get_names c)"
  shows "register reg c = Inl ValueError"
proof -
  have "list_ex (\<lambda>k. reg k \<noteq> None) (get_names c)"
    unfolding list_ex_iff using assms by (intro bexI [of _ n]) simp_all
  then show ?thesis by (simp add: register_def)
qed

lemma new_metric_existing:
  assumes "reg n = Some c" and "buckets = None \<or> cls = Histogram"
  shows "new_metric valid reg cls n d ls buckets = Inl ValueError"
proof -
  have "register reg \<lparr>kind = cls, full_name = build_full_name cls n, documentation = d,
                        labelnames = ls, upper_bounds = buckets\<rparr> = Inl ValueError"
    by (rule register_duplicate [where reg = reg and n = n and c' = c, OF assms(1) name_in_get_names])
  then show ?thesis using assms(2) by (auto simp: new_metric_def Let_def)
qed

lemma fold_register_names:
  "fold (\<lambda>n r. r(n \<mapsto> c)) ns reg = (\<lambda>k. if k \<in> set ns then Some c else reg k)"
  by (induction ns arbitrary: reg) (auto simp: fun_eq_iff)

lemma get_or_create_metric_registers:
  assumes "get_or_create_metric valid reg cls n d labels buckets = Inr (Some c, reg')"
  shows "reg' n = Some c"
proof -
  let ?new = "\<lambda>ls. new_metric valid reg cls n d ls buckets"
  obtain ls where call: "get_or_create_metric valid reg cls n d labels buckets =
      (case ?new ls of Inr (c, reg') \<Rightarrow> Inr (Some c, reg')
        | Inl ValueError \<Rightarrow> Inr (reg n, reg) | Inl e \<Rightarrow> Inl e)"
    by (cases labels; cases "the labels") (auto simp: get_or_create_metric_def)
  show ?thesis
  proof (cases "?new ls")
    case (Inl e)
    with assms call show ?thesis by (cases e) auto
  next
    case (Inr p)
    with assms call have p: "p = (c, reg')" by (cases p) auto
    from Inr p have "register reg c = Inr reg'"
      and c: "c = \<lparr>kind = cls, full_name = build_full_name cls n, documentation = d,
                        labelnames = ls, upper_bounds = buckets\<rparr>"
      by (auto simp: new_metric_def Let_def split: if_splits sum.splits)
    then have "reg' = (\<lambda>k. if k \<in> set (get_names c) then Some c else reg k)"
      by (auto simp: register_def fold_register_names split: if_splits)
    moreover have "n \<in> set (get_names c)" unfolding c by (rule name_in_get_names)
    ultimately show ?thesis by simp
  qed
qed

lemma get_or_create_metric_again:
  assumes "get_or_create_metric valid reg cls n d labels buckets = Inr (Some c, reg')"
    and "buckets' = None \<or> cls' = Histogram"
  shows "get_or_create_metric valid reg' cls' n d' labels' buckets' = Inr (Some c, reg')"
proof -
  have here: "reg' n = Some c" by (rule get_or_create_metric_registers [OF assms(1)])
  have "new_metric valid reg' cls' n d' ls buckets' = Inl ValueError" for ls
    by (rule new_metric_existing [where reg = reg' and n = n and c = c, OF here assms(2)])
  then show ?thesis
    using here by (simp add: get_or_create_metric_def split: option.splits list.splits)
qed

lemma sum_list_exp_pos: "l \<noteq> [] \<Longrightarrow> 0 < sum_list (map (\<lambda>y. exp (y - m)) (l :: real list))"
proof (induction l)
  case Nil
  then show ?case by simp
next
  case (Cons x xs)
  have "0 \<le> sum_list (map (\<lambda>y. exp (y - m)) xs)"
    by (rule sum_list_nonneg) auto
  moreover have "0 < exp (x - m)" by simp
  ultimately have "0 < exp (x - m) + sum_list (map (\<lambda>y. exp (y - m)) xs)"
    by (rule add_pos_nonneg [rotated])
  then show ?case by simp
qed

lemma softmax_sum_real: "l \<noteq> [] \<Longrightarrow> sum_list (softmax l) = 1"
proof -
  assume ne: "l \<noteq> []"
  let ?S = "sum_list (map (\<lambda>y. exp (y - row_max l)) l)"
  have "sum_list (softmax l) = sum_list (map (\<lambda>x. exp (x - row_max l) * inverse ?S) l)"
    by (simp add: softmax_def divide_inverse)
  also have "\<dots> = ?S * inverse ?S"
    by (simp add: sum_list_mult_const)
  also have "\<dots> = 1"
    using sum_list_exp_pos [OF ne, of "row_max l"] by simp
  finally show ?thesis .
qed

lemma get_or_create_metric_keeps:
  assumes "get_or_create_metric valid reg cls n d labels buckets = Inr (x, reg')"
    and "reg k = Some c"
  shows "reg' k = Some c"
proof -
  let ?new = "\<lambda>ls. new_metric valid reg cls n d ls buckets"
  obtain ls where call: "get_or_create_metric valid reg cls n d labels buckets =
      (case ?new ls of Inr (c, reg') \<Rightarrow> Inr (Some c, reg')
        | Inl ValueError \<Rightarrow> Inr (reg n, reg) | Inl e \<Rightarrow> Inl e)"
    by (cases labels; cases "the labels") (auto simp: get_or_create_metric_def)
  show ?thesis
  proof (cases "?new ls")
    case (Inl e)
    with assms call show ?thesis by (cases e) auto
  next
    case (Inr p)
    with assms(1) call obtain c' where p: "p = (c', reg')" by (cases p) auto
    from Inr p have r: "register reg c' = Inr reg'"
      by (auto simp: new_metric_def Let_def split: if_splits sum.splits)
    then have "\<not> list_ex (\<lambda>n. reg n \<noteq> None) (get_names c')"
      and "reg' = (\<lambda>k. if k \<in> set (get_names c') then Some c' else reg k)"
      by (auto simp: register_def fold_register_names split: if_splits)
    with assms(2) show ?thesis by (auto simp: list_ex_iff)
  qed
qed

lemma get_or_create_metric_fresh:
  assumes "\<not> list_ex (\<lambda>k. reg k \<noteq> None)
             (get_names \<lparr>kind = cls, full_name = build_full_name cls n, documentation = d,
                         labelnames = case labels of None \<Rightarrow> [] | Some ls \<Rightarrow> ls,
                         upper_bounds = buckets\<rparr>)"
    and "buckets = None \<or> cls = Histogram"
  shows "\<exists>c reg'. get_or_create_metric all_valid reg cls n d labels buckets = Inr (Some c, reg')"
  using assms
  by (cases labels; cases "the labels")
     (auto simp: get_or_create_metric_def new_metric_def all_valid_def register_def Let_def)

lemma get_or_create_metric_lookup:
  assumes "reg n = Some c" and "buckets = None \<or> cls = Histogram"
  shows "get_or_create_metric valid reg cls n d labels buckets = Inr (Some c, reg)"
proof -
  have "new_metric valid reg cls n d ls buckets = Inl ValueError" for ls
    by (rule new_metric_existing [where reg = reg and n = n and c = c, OF assms])
  then show ?thesis
    using assms(1) by (simp add: get_or_create_metric_def split: option.splits list.splits)
qed

lemma module_metrics_fresh:
  "\<exists>rc rl ar ml reg.
     module_metrics all_valid Map.empty = Inr ((Some rc, Some rl, Some ar, Some ml), reg)"
  by (simp add: module_metrics_def get_or_create_metric_def new_metric_def all_valid_def
      register_def get_names_def build_full_name_def Let_def)

lemma module_metrics_reload:
  assumes "module_metrics valid reg = Inr ((Some rc, Some rl, Some ar, Some ml), reg')"
  shows "module_metrics valid' reg' = Inr ((Some rc, Some rl, Some ar, Some ml), reg')"
proof -
  let ?bs = "Some [1 / 100, 25 / 1000, 5 / 100, 1 / 10, 25 / 100, 5 / 10, 1, 25 / 10 :: real]"
  from assms obtain reg1 reg2 reg3 where
    1: "get_or_create_metric valid reg Counter ''inference_requests_total''
          ''Total inference requests'' (Some [''model'', ''status'']) None = Inr (Some rc, reg1)"
    and 2: "get_or_create_metric valid reg1 Histogram ''inference_request_duration_seconds''
          ''Inference latency in seconds'' (Some [''model'']) ?bs = Inr (Some rl, reg2)"
    and 3: "get_or_create_metric valid reg2 Gauge ''inference_active_requests''
          ''Currently active inference requests'' None None = Inr (Some ar, reg3)"
    and 4: "get_or_create_metric valid reg3 Gauge ''model_loaded''
          ''Whether model is loaded (1=yes 0=no)'' (Some [''model'']) None = Inr (Some ml, reg')"
    unfolding module_metrics_def by (auto split: sum.splits prod.splits)
  note k2 = get_or_create_metric_keeps [OF 2] and k3 = get_or_create_metric_keeps [OF 3]
    and k4 = get_or_create_metric_keeps [OF 4]
  have rc: "reg' ''inference_requests_total'' = Some rc"
    by (intro k4 k3 k2 get_or_create_metric_registers [OF 1])
  have rl: "reg' ''inference_request_duration_seconds'' = Some rl"
    by (intro k4 k3 get_or_create_metric_registers [OF 2])
  have ar: "reg' ''inference_active_requests'' = Some ar"
    by (intro k4 get_or_create_metric_registers [OF 3])
  have ml: "reg' ''model_loaded'' = Some ml"
    by (rule get_or_create_metric_registers [OF 4])
  show ?thesis
    unfolding module_metrics_def
    by (simp add: get_or_create_metric_lookup [where reg = reg', OF rc]
        get_or_create_metric_lookup [where reg = reg', OF rl]
        get_or_create_metric_lookup [where reg = reg', OF ar]
        get_or_create_metric_lookup [where reg = reg', OF ml])
qed

lemma try_map_Inr_all:
  "try_map f xs = Inr ys \<Longrightarrow> x \<in> set xs \<Longrightarrow> \<exists>y. f x = Inr y"
  by (induction xs arbitrary: ys) (auto split: sum.splits)

lemma try_map_all_ex:
  "(\<And>x. x \<in> set xs \<Longrightarrow> \<exists>y. f x = Inr y) \<Longrightarrow> \<exists>ys. try_map f xs = Inr ys"
proof (induction xs)
  case Nil
  then show ?case by simp
next
  case (Cons x xs)
  then obtain y where "f x = Inr y" by auto
  moreover from Cons obtain ys where "try_map f xs = Inr ys" by auto
  ultimately show ?case by simp
qed

lemma convertible_iff: "convertible pf v \<longleftrightarrow> (\<exists>x. to_float32 pf v = Inr x)"
  by (simp add: convertible_def split: sum.splits)

lemma np_shape_scalar_iff: "np_shape v = Some [] \<longleftrightarrow> (\<forall>xs. v \<noteq> PyList xs)"
proof (cases v)
  case (PyList xs)
  have "np_shape (PyList xs) \<noteq> Some []"
    using np_shape_PyList_cases [of xs "[]"] by auto
  with PyList show ?thesis by simp
qed simp_all

lemma convertible_scalar: "convertible pf v \<Longrightarrow> np_shape v = Some []"
  by (cases v) (simp_all add: convertible_def)

lemma np_leaves_scalars:
  "(\<And>x. x \<in> set xs \<Longrightarrow> np_shape x = Some []) \<Longrightarrow> concat (map np_leaves xs) = xs"
proof (induction xs)
  case Nil
  then show ?case by simp
next
  case (Cons x xs)
  have "np_shape x = Some []" using Cons.prems by simp
  then have "\<forall>ys. x \<noteq> PyList ys" using np_shape_scalar_iff [of x] by blast
  then have "np_leaves x = [x]"
    by (cases x) simp_all
  with Cons show ?case by simp
qed

lemma row_of_shape:
  assumes "np_shape (PyList r) = Some [n]"
  shows "length r = n" and "np_leaves (PyList r) = r"
proof -
  from np_shape_PyList_cases [OF assms]
  have "r = [] \<and> n = 0 \<or> r \<noteq> [] \<and> n = length r \<and> (\<forall>x\<in>set r. np_shape x = Some [])"
    by auto
  then show "length r = n" by auto
  from \<open>r = [] \<and> n = 0 \<or> r \<noteq> [] \<and> n = length r \<and> (\<forall>x\<in>set r. np_shape x = Some [])\<close>
  show "np_leaves (PyList r) = r"
    by (auto simp: np_leaves_scalars)
qed

lemma np_array_batch:
  assumes "np_array pf xs = Inr a" and "nd_shape a = [4] \<or> nd_shape a = [N, 4]"
  shows "is_batch pf xs"
proof -
  note sh = np_array_Inr(1) [OF assms(1)] and tm = np_array_Inr(3) [OF assms(1)]
  have conv: "convertible pf v" if "v \<in> set (np_leaves (PyList xs))" for v
    using try_map_Inr_all [OF tm that] by (simp add: convertible_iff)
  from assms(2) show ?thesis
  proof
    assume 4: "nd_shape a = [4]"
    with sh have s4: "np_shape (PyList xs) = Some [4]" by simp
    from row_of_shape [OF s4] conv have "feature_row pf xs"
      by (simp add: feature_row_def list_all_iff)
    then show ?thesis by (simp add: is_batch_def)
  next
    assume "nd_shape a = [N, 4]"
    with sh have sN: "np_shape (PyList xs) = Some [N, 4]" by simp
    from np_shape_PyList_cases [OF sN]
    have ne: "xs \<noteq> []" and rows: "\<forall>x\<in>set xs. np_shape x = Some [4]" by auto
    have "case v of PyList r \<Rightarrow> feature_row pf r | _ \<Rightarrow> False" if v: "v \<in> set xs" for v
    proof -
      from rows v have s: "np_shape v = Some [4]" by simp
      then obtain r where r: "v = PyList r"
        by (cases v) simp_all
      from s r have sr: "np_shape (PyList r) = Some [4]" by simp
      have sub: "y \<in> set (np_leaves (PyList xs))" if "y \<in> set r" for y
      proof -
        have "y \<in> set (np_leaves v)" using that r row_of_shape(2) [OF sr] by simp
        with v show ?thesis by auto
      qed
      have "convertible pf y" if "y \<in> set r" for y
        by (rule conv [OF sub [OF that]])
      with row_of_shape(1) [OF sr] have "feature_row pf r"
        by (simp add: feature_row_def list_all_iff)
      with r show ?thesis by simp
    qed
    with ne show ?thesis by (simp add: is_batch_def list_all_iff)
  qed
qed

lemma feature_row_array:
  assumes "feature_row pf r"
  shows "np_shape (PyList r) = Some [4]" and "np_leaves (PyList r) = r"
    and "\<exists>vs. try_map (to_float32 pf) r = Inr vs"
proof -
  from assms have len: "length r = 4" and conv: "\<And>x. x \<in> set r \<Longrightarrow> convertible pf x"
    by (simp_all add: feature_row_def list_all_iff)
  have sc: "np_shape x = Some []" if "x \<in> set r" for x
    by (rule convertible_scalar [OF conv [OF that]])
  from len have ne: "r \<noteq> []" by auto
  have "np_shape (PyList r) = Some (length r # [])"
    by (rule np_shape_uniform [OF ne sc])
  with len show "np_shape (PyList r) = Some [4]" by simp
  show "np_leaves (PyList r) = r" by (simp add: np_leaves_scalars sc)
  show "\<exists>vs. try_map (to_float32 pf) r = Inr vs"
    by (rule try_map_all_ex) (use conv in \<open>simp add: convertible_iff\<close>)
qed

lemma batch_np_array:
  assumes "is_batch pf xs"
  shows "\<exists>a. np_array pf xs = Inr a \<and> (nd_shape a = [4] \<or> nd_shape a = [length xs, 4])"
proof -
  have item: "\<exists>r. v = PyList r \<and> feature_row pf r"
    if "case v of PyList r \<Rightarrow> feature_row pf r | _ \<Rightarrow> False" for v
    using that by (cases v) simp_all
  from assms consider (row) "feature_row pf xs"
    | (rows) "xs \<noteq> []" "\<And>v. v \<in> set xs \<Longrightarrow> \<exists>r. v = PyList r \<and> feature_row pf r"
    unfolding is_batch_def list_all_iff using item by blast
  then show ?thesis
  proof cases
    case row
    from feature_row_array [OF row] show ?thesis
      by (auto simp: np_array_def simp del: np_shape.simps np_leaves.simps)
  next
    case rows
    have sh: "np_shape v = Some [4]" if "v \<in> set xs" for v
      using rows(2) [OF that] feature_row_array(1) by auto
    have shape: "np_shape (PyList xs) = Some [length xs, 4]"
      by (rule np_shape_uniform [OF rows(1) sh])
    have "\<exists>y. to_float32 pf x = Inr y" if "x \<in> set (np_leaves (PyList xs))" for x
    proof -
      from that obtain v where v: "v \<in> set xs" and x: "x \<in> set (np_leaves v)" by auto
      from rows(2) [OF v] obtain r where r: "v = PyList r" and fr: "feature_row pf r" by auto
      from x r feature_row_array(2) [OF fr] have "x \<in> set r" by (simp del: np_leaves.simps)
      with fr show ?thesis by (simp add: feature_row_def list_all_iff convertible_iff)
    qed
    then obtain vs where "try_map (to_float32 pf) (np_leaves (PyList xs)) = Inr vs"
      using try_map_all_ex [of "np_leaves (PyList xs)" "to_float32 pf"] by blast
    with shape show ?thesis
      by (simp add: np_array_def del: np_shape.simps np_leaves.simps)
  qed
qed

lemma batch_accepted:
  assumes "loaded (model s)" and "inputs request = inp # rest"
    and "is_batch pf (InferenceInput.data inp)"
  shows "\<exists>resp. fst (infer pf duration s mname request) = Inr resp"
proof -
  from batch_np_array [OF assms(3)] obtain a where
    a: "np_array pf (InferenceInput.data inp) = Inr a"
    and sh: "nd_shape a = [4] \<or> nd_shape a = [length (InferenceInput.data inp), 4]"
    by (elim exE conjE)
  let ?w = "weights (model s)"
  have "\<exists>r. predict ?w (if ndim a = 1 then reshape_1_m1 a else a) = Inr r"
    using sh
  proof
    assume 4: "nd_shape a = [4]"
    then have "nd_shape (reshape_1_m1 a) = [1, 4]" by (simp add: reshape_1_m1_def)
    from predict_2d' [OF this, of ?w] 4 show ?thesis by (simp add: ndim_def)
  next
    assume N: "nd_shape a = [length (InferenceInput.data inp), 4]"
    from predict_2d' [OF this, of ?w] N show ?thesis by (simp add: ndim_def)
  qed
  then obtain r where "run_model pf s request = Inr r"
    using assms(2) a by (auto simp: run_model_def getitem_def)
  from infer_success [OF assms(1) this, of duration mname]
  show ?thesis by auto
qed

lemma inputs_request_with:
  "inputs (request_with sh xs) =
     \<lparr>InferenceInput.name = ''input'', InferenceInput.shape = sh,
      InferenceInput.data_type = ''FP32'', InferenceInput.data = xs\<rparr> # []"
  by (simp add: request_with_def)

lemma run_model_decode:
  "run_model pf s request =
     (case decode pf request of Inl e \<Rightarrow> Inl e | Inr raw \<Rightarrow> predict (weights (model s)) raw)"
  by (simp add: run_model_def decode_def split: sum.splits)

lemma decode_drop_declared:
  assumes "map InferenceInput.data (inputs r1) = map InferenceInput.data (inputs r2)"
  shows "decode pf r1 = decode pf r2"
proof (cases "inputs r1")
  case Nil
  with assms have "inputs r2 = []" by simp
  with Nil show ?thesis by (simp add: decode_def getitem_def)
next
  case (Cons i1 is1)
  with assms obtain i2 is2 where 2: "inputs r2 = i2 # is2"
    and d: "InferenceInput.data i1 = InferenceInput.data i2"
    by (cases "inputs r2") auto
  with Cons show ?thesis by (simp add: decode_def getitem_def)
qed

lemma decode_Inr:
  assumes "decode pf request = Inr a"
  shows "\<exists>inp rest sh.
           inputs request = inp # rest \<and>
           np_shape (PyList (InferenceInput.data inp)) = Some sh \<and>
           nd_shape a = (case sh of [n] \<Rightarrow> [1, n] | _ \<Rightarrow> sh) \<and>
           prod_list (nd_shape a) = length (np_leaves (PyList (InferenceInput.data inp))) \<and>
           length (nd_elems a) = length (np_leaves (PyList (InferenceInput.data inp))) \<and>
           list_all (convertible pf) (np_leaves (PyList (InferenceInput.data inp)))"
proof -
  from assms obtain inp rest where inputs: "inputs request = inp # rest"
    by (cases "inputs request") (auto simp: decode_def getitem_def)
  from assms inputs obtain raw where raw: "np_array pf (InferenceInput.data inp) = Inr raw"
    and a: "a = (if ndim raw = 1 then reshape_1_m1 raw else raw)"
    by (auto simp: decode_def getitem_def split: sum.splits)
  let ?xs = "InferenceInput.data inp"
  note sh = np_array_Inr(1) [OF raw] and cnt = np_array_Inr(2) [OF raw]
    and tm = np_array_Inr(3) [OF raw]
  have conv: "list_all (convertible pf) (np_leaves (PyList ?xs))"
    unfolding list_all_iff convertible_iff using try_map_Inr_all [OF tm] by blast
  have len: "length (nd_elems raw) = length (np_leaves (PyList ?xs))"
    using try_map_Inr_length [OF tm] by simp
  have shape: "nd_shape a = (case nd_shape raw of [n] \<Rightarrow> [1, n] | _ \<Rightarrow> nd_shape raw)"
    unfolding a by (cases "nd_shape raw"; cases "tl (nd_shape raw)")
      (auto simp: ndim_def reshape_1_m1_def)
  have prod: "prod_list (nd_shape a) = prod_list (nd_shape raw)"
    unfolding a by (simp add: reshape_1_m1_def)
  have elems: "nd_elems a = nd_elems raw"
    unfolding a by (simp add: reshape_1_m1_def)
  show ?thesis
    by (intro exI [of _ inp] exI [of _ rest] exI [of _ "nd_shape raw"] conjI inputs sh shape conv)
       (simp_all only: prod cnt elems len)
qed









lemma decode_sample:
  "decode pf (request_with sh sample_data) =
     Inr (NDArray [1, 4] [51 / 10, 35 / 10, 14 / 10, 2 / 10])"
  by (simp add: decode_def request_with_def getitem_def np_array_sample ndim_def
      reshape_1_m1_def)

lemma decode_short: "decode pf short_request = Inr (NDArray [1, 3] [1, 2, 3])"
  by (simp add: decode_def short_request_def request_with_def getitem_def np_array_def
      ndim_def reshape_1_m1_def)

lemma int_too_large_bound: "2 ^ 64 < int_too_large"
proof -
  have "(2::int) ^ 1024 = 2 ^ 970 * 2 ^ 54" by (simp flip: power_add)
  then have "int_too_large = 2 ^ 970 * (2 ^ 54 - 1)"
    unfolding int_too_large_def by (simp only: right_diff_distrib mult_1_right)
  moreover have "(2::int) ^ 970 * 1 \<le> 2 ^ 970 * (2 ^ 54 - 1)"
    by (rule mult_left_mono) simp_all
  ultimately have "2 ^ 970 \<le> int_too_large" by (simp only: mult_1_right)
  moreover have "(2::int) ^ 64 < 2 ^ 970" by (rule power_strict_increasing) simp_all
  ultimately show ?thesis by (rule less_le_trans [rotated])
qed

lemma small_int_converts:
  "\<bar>i\<bar> \<le> 2 ^ 64 \<Longrightarrow> to_float32 pf (PyInt i) = Inr (of_int i)"
  using int_too_large_bound by simp

lemma not_batch_rejected:
  assumes "loaded (model s)" and "inputs request = inp # rest"
    and "\<not> is_batch pf (InferenceInput.data inp) \<or>
         \<not> (0 < length (np_leaves (PyList (InferenceInput.data inp))) \<and>
            4 dvd length (np_leaves (PyList (InferenceInput.data inp))))"
  shows "\<exists>e. infer pf duration s mname request =
               (Inl (HTTPException 500 (Str e)), count_inc ''error'' s) \<and>
             http_status (fst (infer pf duration s mname request)) = 500 \<and>
             http_status (fst (infer pf duration s mname request)) \<noteq> 200"
proof (cases "run_model pf s request")
  case (Inl e)
  from infer_exception [OF assms(1) Inl, of duration mname]
  show ?thesis by (simp add: final_state_error)
next
  case (Inr r)
  from run_model_Inr [OF Inr] obtain inp' rest' a N where
    i: "inputs request = inp' # rest'"
    and a: "np_array pf (InferenceInput.data inp') = Inr a"
    and sh: "nd_shape a = [4] \<and> N = 1 \<or> nd_shape a = [N, 4]"
    and N: "0 < N"
    and cnt: "length (np_leaves (PyList (InferenceInput.data inp'))) = 4 * N"
    by (elim exE conjE)
  from i assms(2) have same: "inp' = inp" by simp
  from sh have "nd_shape a = [4] \<or> nd_shape a = [N, 4]" by auto
  from np_array_batch [OF a this] have "is_batch pf (InferenceInput.data inp)"
    by (simp add: same)
  moreover from N cnt have "0 < length (np_leaves (PyList (InferenceInput.data inp))) \<and>
            4 dvd length (np_leaves (PyList (InferenceInput.data inp)))"
    by (simp add: same del: np_leaves.simps)
  ultimately have False using assms(3) by blast
  then show ?thesis ..
qed

section \<open>The claims\<close>



text \<open>
  Claim C8. While the model is not loaded, \<^verbatim>\<open>infer\<close> raises the 503 exception for every
  request, whatever its payload, and returns the state unchanged, so no metric is touched.
  Once the model is loaded it stays loaded through every sequence of calls.
\<close>

theorem not_ready_rejected_ready_kept:
  "(\<not> loaded (model s) \<longrightarrow>
      infer pf duration s mname request =
        (Inl (HTTPException 503 (Text ''Model not ready'')), s)) \<and>
   (loaded (model s) \<longrightarrow> loaded (model (fold (handle pf) calls s)))"
  by (simp add: infer_not_loaded fold_handle_loaded)

theorem not_ready_rejected_ready_kept_witness:
  "\<not> loaded (model cold_server) \<and>
   infer no_parse (1 / 100) cold_server ''iris-classifier'' short_request =
     (Inl (HTTPException 503 (Text ''Model not ready'')), cold_server) \<and>
   http_status (fst (infer no_parse (1 / 100) cold_server ''iris-classifier'' short_request)) = 503 \<and>
   loaded (model ready_server) \<and>
   loaded (model (fold (handle no_parse)
      [Infer (1 / 100) ''iris-classifier'' short_request, Health, Load zero_weights, Metrics,
       Infer (1 / 100) ''iris-classifier'' sample_request, Ready] ready_server))"
proof -
  let ?calls = "[Infer (1 / 100) ''iris-classifier'' short_request, Health, Load zero_weights,
       Metrics, Infer (1 / 100) ''iris-classifier'' sample_request, Ready]"
  have c: "\<not> loaded (model cold_server)" by (simp add: cold_server_def)
  have r: "loaded (model ready_server)" by (simp add: ready_server_def)
  from c not_ready_rejected_ready_kept
         [of cold_server no_parse "1 / 100" "''iris-classifier''" short_request]
  have 1: "infer no_parse (1 / 100) cold_server ''iris-classifier'' short_request =
     (Inl (HTTPException 503 (Text ''Model not ready'')), cold_server)" by blast
  from r not_ready_rejected_ready_kept [where s = ready_server and pf = no_parse and calls = ?calls]
  have 2: "loaded (model (fold (handle no_parse) ?calls ready_server))" by blast
  show ?thesis using c r 2 unfolding 1 by simp
qed



text \<open>
  Claim C6. On a loaded model with the request counter and the latency histogram registered,
  one call of \<^verbatim>\<open>infer\<close> changes the counter in exactly one place: a call that returns a
  response adds one to the success series of the model and records the duration in the
  histogram; a call that raises adds one to the error series and records no duration.
\<close>

theorem request_counted_once:
  assumes "loaded (model s)" and "REQUEST_COUNT s = Some c" and "REQUEST_LATENCY s = Some h"
  shows "case fst (infer pf duration s mname request) of
           Inr resp \<Rightarrow>
             REQUEST_COUNT (snd (infer pf duration s mname request)) =
               Some (c((MODEL_NAME, ''success'') := c (MODEL_NAME, ''success'') + 1)) \<and>
             REQUEST_LATENCY (snd (infer pf duration s mname request)) =
               Some (h(MODEL_NAME := h MODEL_NAME @ [duration]))
         | Inl e \<Rightarrow>
             REQUEST_COUNT (snd (infer pf duration s mname request)) =
               Some (c((MODEL_NAME, ''error'') := c (MODEL_NAME, ''error'') + 1)) \<and>
             REQUEST_LATENCY (snd (infer pf duration s mname request)) = Some h"
proof (cases rule: infer_cases [of s pf duration mname request])
  case not_ready
  with assms(1) show ?thesis by simp
next
  case (failed e)
  then show ?thesis
    using assms(2,3) by (simp add: final_state_error count_inc_def)
next
  case (succeeded r resp)
  then show ?thesis
    using assms(2,3) by (simp add: final_state_success count_inc_def latency_observe_def)
qed

theorem request_counted_once_witness:
  "loaded (model ready_server) \<and>
   REQUEST_COUNT ready_server = Some (\<lambda>k. 0) \<and> REQUEST_LATENCY ready_server = Some (\<lambda>k. []) \<and>
   REQUEST_COUNT (snd (infer no_parse (1 / 100) ready_server ''iris-classifier'' sample_request)) =
     Some ((\<lambda>k. 0)((MODEL_NAME, ''success'') := 1)) \<and>
   REQUEST_LATENCY (snd (infer no_parse (1 / 100) ready_server ''iris-classifier'' sample_request)) =
     Some ((\<lambda>k. [])(MODEL_NAME := [1 / 100])) \<and>
   REQUEST_COUNT (snd (infer no_parse (1 / 100) ready_server ''iris-classifier'' short_request)) =
     Some ((\<lambda>k. 0)((MODEL_NAME, ''error'') := 1)) \<and>
   REQUEST_LATENCY (snd (infer no_parse (1 / 100) ready_server ''iris-classifier'' short_request)) =
     Some (\<lambda>k. [])"
proof -
  have l: "loaded (model ready_server)"
    and c: "REQUEST_COUNT ready_server = Some (\<lambda>k. 0)"
    and h: "REQUEST_LATENCY ready_server = Some (\<lambda>k. [])"
    by (simp_all add: ready_server_def)
  have ok: "fst (infer no_parse (1 / 100) ready_server ''iris-classifier'' sample_request) =
      Inr \<lparr>InferenceResponse.id' = Some ''test-001'', model_name = MODEL_NAME,
        model_version = MODEL_VERSION,
        outputs =
          [\<lparr>InferenceOutput.name = ''probabilities'', shape = [1, 3], data_type = ''FP32'',
            data = [PyList [PyNum (1 / 3), PyNum (1 / 3), PyNum (1 / 3)]]\<rparr>,
           \<lparr>InferenceOutput.name = ''predicted_class'', shape = [1], data_type = ''BYTES'',
            data = [PyStr ''setosa'']\<rparr>]\<rparr>"
    by (simp add: sample_request_def infer_sample)
  have bad: "fst (infer no_parse (1 / 100) ready_server ''iris-classifier'' short_request) =
      Inl (HTTPException 500 (Str ValueError))"
    by (simp add: infer_short)
  from request_counted_once [OF l c h, of no_parse "1 / 100" "''iris-classifier''" sample_request]
  have 1: "REQUEST_COUNT (snd (infer no_parse (1 / 100) ready_server ''iris-classifier'' sample_request)) =
     Some ((\<lambda>k. 0)((MODEL_NAME, ''success'') := 1)) \<and>
     REQUEST_LATENCY (snd (infer no_parse (1 / 100) ready_server ''iris-classifier'' sample_request)) =
     Some ((\<lambda>k. [])(MODEL_NAME := [1 / 100]))"
    unfolding ok by simp
  from request_counted_once [OF l c h, of no_parse "1 / 100" "''iris-classifier''" short_request]
  have 2: "REQUEST_COUNT (snd (infer no_parse (1 / 100) ready_server ''iris-classifier'' short_request)) =
     Some ((\<lambda>k. 0)((MODEL_NAME, ''error'') := 1)) \<and>
     REQUEST_LATENCY (snd (infer no_parse (1 / 100) ready_server ''iris-classifier'' short_request)) =
     Some (\<lambda>k. [])"
    unfolding bad by simp
  from l c h 1 2 show ?thesis by (intro conjI) (elim conjE, assumption)+
qed

text \<open>
  Claim C9. A response returned by \<^verbatim>\<open>infer\<close> has exactly two outputs, in this order:
  \<^verbatim>\<open>probabilities\<close> with datatype FP32, shape \<open>[N, 3]\<close> and \<open>N\<close> rows of three numbers, then
  \<^verbatim>\<open>predicted_class\<close> with datatype BYTES, shape \<open>[N]\<close> and \<open>N\<close> entries, where \<open>N\<close> is the
  number of rows of the payload (one for a flat payload of four items).
\<close>

theorem response_outputs:
  assumes "infer pf duration s mname request = (Inr resp, s')"
  shows "\<exists>inp rest N probs cls.
           inputs request = inp # rest \<and>
           (np_shape (PyList (InferenceInput.data inp)) = Some [4] \<and> N = 1 \<or>
            np_shape (PyList (InferenceInput.data inp)) = Some [N, 4]) \<and>
           0 < N \<and> length probs = N \<and> list_all (\<lambda>p. length p = 3) probs \<and> length cls = N \<and>
           outputs resp =
             [\<lparr>InferenceOutput.name = ''probabilities'', shape = [int N, 3],
               data_type = ''FP32'', data = tolist probs\<rparr>,
              \<lparr>InferenceOutput.name = ''predicted_class'', shape = [int N],
               data_type = ''BYTES'', data = map PyStr cls\<rparr>]"
proof (cases rule: infer_cases [of s pf duration mname request])
  case not_ready
  with assms show ?thesis by simp
next
  case (failed e)
  with assms show ?thesis by simp
next
  case (succeeded r resp')
  with assms have resp: "make_response request r = Inr resp" by simp
  from run_model_Inr [OF succeeded(2)] obtain inp rest a N where
    inputs: "inputs request = inp # rest"
    and a: "np_array pf (InferenceInput.data inp) = Inr a"
    and sh: "nd_shape a = [4] \<and> N = 1 \<or> nd_shape a = [N, 4]"
    and N: "0 < N"
    and cnt: "length (np_leaves (PyList (InferenceInput.data inp))) = 4 * N"
    and r: "r = batch_result (weights (model s)) N (nd_elems a)"
    by (elim exE conjE)
  let ?b = "batch_result (weights (model s)) N (nd_elems a)"
  from resp have "make_response request ?b = Inr resp" unfolding r .
  then have "resp = \<lparr>InferenceResponse.id' = InferenceRequest.id' request,
          model_name = MODEL_NAME, model_version = MODEL_VERSION,
          outputs =
            [\<lparr>InferenceOutput.name = ''probabilities'', shape = [int N, 3], data_type = ''FP32'',
              data = tolist (probabilities ?b)\<rparr>,
             \<lparr>InferenceOutput.name = ''predicted_class'', shape = [int N], data_type = ''BYTES'',
              data = map PyStr (predicted_class ?b)\<rparr>]\<rparr>"
    unfolding make_response_batch [OF N] by simp
  then have out: "outputs resp =
      [\<lparr>InferenceOutput.name = ''probabilities'', shape = [int N, 3],
               data_type = ''FP32'', data = tolist (probabilities ?b)\<rparr>,
              \<lparr>InferenceOutput.name = ''predicted_class'', shape = [int N],
               data_type = ''BYTES'', data = map PyStr (predicted_class ?b)\<rparr>]"
    by simp
  have rows: "list_all (\<lambda>p. length p = 3) (probabilities ?b)"
    by (simp add: list_all_iff batch_result_lengths)
  have shape: "np_shape (PyList (InferenceInput.data inp)) = Some [4] \<and> N = 1 \<or>
            np_shape (PyList (InferenceInput.data inp)) = Some [N, 4]"
    using sh np_array_Inr(1) [OF a] by (elim disjE) simp_all
  show ?thesis
    by (intro exI [of _ inp] exI [of _ rest] exI [of _ N] exI [of _ "probabilities ?b"]
          exI [of _ "predicted_class ?b"] conjI inputs shape N rows out
          batch_result_lengths(1,2))
qed

theorem response_outputs_witness:
  "infer no_parse (1 / 100) ready_server ''iris-classifier'' sample_request =
     (Inr \<lparr>InferenceResponse.id' = Some ''test-001'', model_name = MODEL_NAME,
        model_version = MODEL_VERSION,
        outputs =
          [\<lparr>InferenceOutput.name = ''probabilities'', shape = [1, 3], data_type = ''FP32'',
            data = [PyList [PyNum (1 / 3), PyNum (1 / 3), PyNum (1 / 3)]]\<rparr>,
           \<lparr>InferenceOutput.name = ''predicted_class'', shape = [1], data_type = ''BYTES'',
            data = [PyStr ''setosa'']\<rparr>]\<rparr>,
      latency_observe (1 / 100) (count_inc ''success'' ready_server)) \<and>
   (\<exists>inp rest N probs cls.
      inputs sample_request = inp # rest \<and>
      (np_shape (PyList (InferenceInput.data inp)) = Some [4] \<and> N = 1 \<or>
       np_shape (PyList (InferenceInput.data inp)) = Some [N, 4]) \<and>
      0 < N \<and> length probs = N \<and> list_all (\<lambda>p. length p = 3) probs \<and> length cls = N \<and>
      [\<lparr>InferenceOutput.name = ''probabilities'', shape = [1, 3], data_type = ''FP32'',
        data = [PyList [PyNum (1 / 3), PyNum (1 / 3), PyNum (1 / 3)]]\<rparr>,
       \<lparr>InferenceOutput.name = ''predicted_class'', shape = [1], data_type = ''BYTES'',
        data = [PyStr ''setosa'']\<rparr>] =
      [\<lparr>InferenceOutput.name = ''probabilities'', shape = [int N, 3],
        data_type = ''FP32'', data = tolist probs\<rparr>,
       \<lparr>InferenceOutput.name = ''predicted_class'', shape = [int N],
        data_type = ''BYTES'', data = map PyStr cls\<rparr>])"
proof -
  note run = infer_sample [of no_parse "1 / 100" "''iris-classifier''" "[1, 4]",
      folded sample_request_def]
  from response_outputs [OF run] run show ?thesis by simp
qed

text \<open>
  Claim C5. For every row \<open>n\<close> of a prediction, the predicted class is the label at the
  position that \<^verbatim>\<open>np.argmax\<close> returns for the row of probabilities; that position holds a
  maximum of the row, every earlier position holds a strictly smaller value (ties go to the
  lowest index), and the label is one of setosa, versicolor and virginica.
\<close>

theorem predicted_class_is_first_argmax:
  assumes "predict w a = Inr r" and "n < length (predicted_class r)"
  shows "\<exists>i. n < length (probabilities r) \<and>
             np_argmax (probabilities r ! n) = Inr i \<and>
             i < length CLASSES \<and>
             predicted_class r ! n = CLASSES ! i \<and>
             (\<forall>j < length (probabilities r ! n).
                 probabilities r ! n ! j \<le> probabilities r ! n ! i) \<and>
             (\<forall>j < i. probabilities r ! n ! j < probabilities r ! n ! i) \<and>
             predicted_class r ! n \<in> {''setosa'', ''versicolor'', ''virginica''}"
proof -
  from predict_Inr_cases [OF assms(1)] assms(2)
  obtain m where r: "r = batch_result w m (nd_elems a)"
    by (elim disjE exE conjE) simp_all
  let ?L = "logit_rows w m (nd_elems a)"
  from assms(2) have n: "n < m" by (simp add: r batch_result_def)
  let ?p = "softmax (?L ! n)"
  have p: "probabilities r ! n = ?p" using n by (simp add: r batch_result_def)
  have len: "length ?p = 3"
    using n logit_rows_row [of "?L ! n" w m "nd_elems a"] by simp
  have ne: "?p \<noteq> []"
  proof
    assume "?p = []"
    then have "length ?p = 0" by (simp only: list.size)
    with len show False by (simp del: softmax_length)
  qed
  let ?i = "first_argmax ?p"
  have i3: "?i < 3" using first_argmax_props(1) [OF ne] len by simp
  have cls: "predicted_class r ! n = CLASSES ! ?i" using n by (simp add: r batch_result_def)
  have mem: "CLASSES ! ?i \<in> {''setosa'', ''versicolor'', ''virginica''}"
    using i3 by (auto simp: CLASSES_def nth_Cons less_Suc_eq numeral_3_eq_3 split: nat.splits)
  show ?thesis
  proof (intro exI [of _ ?i] conjI)
    show "n < length (probabilities r)" using n by (simp add: r batch_result_def)
    show "np_argmax (probabilities r ! n) = Inr ?i" unfolding p by (rule np_argmax_first [OF ne])
    show "?i < length CLASSES" using i3 by (simp add: CLASSES_def)
    show "predicted_class r ! n = CLASSES ! ?i" by (rule cls)
    show "\<forall>j < length (probabilities r ! n). probabilities r ! n ! j \<le> probabilities r ! n ! ?i"
      unfolding p by (rule first_argmax_props(2) [OF ne])
    show "\<forall>j < ?i. probabilities r ! n ! j < probabilities r ! n ! ?i"
      unfolding p by (rule first_argmax_props(3) [OF ne])
    show "predicted_class r ! n \<in> {''setosa'', ''versicolor'', ''virginica''}"
      unfolding cls by (rule mem)
  qed
qed

theorem predicted_class_is_first_argmax_witness:
  "predict zero_weights (NDArray [1, 4] [51 / 10, 35 / 10, 14 / 10, 2 / 10]) =
     Inr \<lparr>probabilities = [[1 / 3, 1 / 3, 1 / 3]], predicted_class = [''setosa''],
          confidence = [1 / 3]\<rparr> \<and>
   np_argmax [1 / 3, 1 / 3, 1 / 3] = Inr 0 \<and>
   (\<exists>i. np_argmax ([[1 / 3, 1 / 3, 1 / 3 :: real]] ! 0) = Inr i \<and>
        i < length CLASSES \<and>
        [''setosa''] ! 0 = CLASSES ! i \<and>
        [''setosa''] ! 0 \<in> {''setosa'', ''versicolor'', ''virginica''})"
proof -
  have p: "predict zero_weights (NDArray [1, 4] [51 / 10, 35 / 10, 14 / 10, 2 / 10]) =
     Inr \<lparr>probabilities = [[1 / 3, 1 / 3, 1 / 3]], predicted_class = [''setosa''],
          confidence = [1 / 3]\<rparr>"
    using predict_2d' [of "NDArray [1, 4] [51 / 10, 35 / 10, 14 / 10, 2 / 10]" 1 zero_weights]
    by (simp add: batch_result_zero_1)
  from predicted_class_is_first_argmax [OF p, of 0]
  show ?thesis using p by auto
qed

theorem malformed_accepted_counterexample:
  "loaded (model ready_server) \<and>
   inputs boolean_request =
     [\<lparr>InferenceInput.name = ''input'', InferenceInput.shape = [1, 4],
       InferenceInput.data_type = ''FP32'',
       InferenceInput.data = [PyBool True, PyBool False, PyBool True, PyBool False]\<rparr>] \<and>
   http_status (fst (infer no_parse (1 / 100) ready_server ''iris-classifier'' boolean_request)) = 200 \<and>
   inputs misdeclared_request =
     [\<lparr>InferenceInput.name = ''input'', InferenceInput.shape = [3, 4],
       InferenceInput.data_type = ''FP32'', InferenceInput.data = sample_data\<rparr>] \<and>
   length sample_data = 4 \<and>
   http_status (fst (infer no_parse (1 / 100) ready_server ''iris-classifier'' misdeclared_request)) = 200"
proof -
  have "np_array no_parse [PyBool True, PyBool False, PyBool True, PyBool False] =
      Inr (NDArray [4] [1, 0, 1, 0])"
    by (simp add: np_array_def)
  note b = infer_row_status [OF this disjI1 [OF refl], of "1 / 100" "''iris-classifier''" "[1, 4]",
      folded boolean_request_def]
  note m = infer_row_status [OF np_array_sample disjI1 [OF refl], of no_parse "1 / 100" "''iris-classifier''"
      "[3, 4]", folded misdeclared_request_def]
  have l: "loaded (model ready_server)" by (simp add: ready_server_def)
  have i: "inputs boolean_request =
     [\<lparr>InferenceInput.name = ''input'', InferenceInput.shape = [1, 4],
       InferenceInput.data_type = ''FP32'',
       InferenceInput.data = [PyBool True, PyBool False, PyBool True, PyBool False]\<rparr>]"
    by (simp add: boolean_request_def request_with_def)
  have j: "inputs misdeclared_request =
     [\<lparr>InferenceInput.name = ''input'', InferenceInput.shape = [3, 4],
       InferenceInput.data_type = ''FP32'', InferenceInput.data = sample_data\<rparr>]"
    by (simp add: misdeclared_request_def request_with_def)
  have k: "length sample_data = 4" by (simp add: sample_data_def)
  from l i b j k m show ?thesis by (intro conjI)
qed

text \<open>
  Claim C1, as amended. On a loaded model, a request with a first input is answered with
  status 200 exactly when its payload is a batch: one row of four convertible scalars, or a
  non-empty list of such rows. Every other payload is answered by the 500 exception and
  counted as an error: a ragged payload, a deeper nesting, a row that has not four items, an
  empty payload, a string that does not parse, an integer too large for a float; in
  particular every payload whose number of scalars is not a positive multiple of four. The
  counterexample before it shows why the claim cannot speak of every malformed tensor: a
  payload of four booleans under the declared datatype FP32 is converted by numpy and
  answered with status 200, and so is a payload of four numbers under a declared shape of
  three rows.
\<close>

theorem malformed_rejected:
  assumes "loaded (model s)" and "inputs request = inp # rest"
  shows "(http_status (fst (infer pf duration s mname request)) = 200 \<longleftrightarrow>
            is_batch pf (InferenceInput.data inp)) \<and>
         (\<not> is_batch pf (InferenceInput.data inp) \<longrightarrow>
            (\<exists>e. infer pf duration s mname request =
                   (Inl (HTTPException 500 (Str e)), count_inc ''error'' s)) \<and>
            http_status (fst (infer pf duration s mname request)) = 500) \<and>
         (\<not> (0 < length (np_leaves (PyList (InferenceInput.data inp))) \<and>
             4 dvd length (np_leaves (PyList (InferenceInput.data inp)))) \<longrightarrow>
            \<not> is_batch pf (InferenceInput.data inp))"
proof -
  let ?count = "length (np_leaves (PyList (InferenceInput.data inp)))"
  have rejected: "\<exists>e. infer pf duration s mname request =
               (Inl (HTTPException 500 (Str e)), count_inc ''error'' s) \<and>
             http_status (fst (infer pf duration s mname request)) = 500 \<and>
             http_status (fst (infer pf duration s mname request)) \<noteq> 200"
    if "\<not> is_batch pf (InferenceInput.data inp) \<or> \<not> (0 < ?count \<and> 4 dvd ?count)"
    by (rule not_batch_rejected [OF assms that])
  have accepted: "http_status (fst (infer pf duration s mname request)) = 200"
    if "is_batch pf (InferenceInput.data inp)"
  proof -
    from batch_accepted [OF assms that, of duration mname] obtain resp where
      "fst (infer pf duration s mname request) = Inr resp" by (elim exE)
    then show ?thesis by simp
  qed
  have 1: "http_status (fst (infer pf duration s mname request)) = 200 \<longleftrightarrow>
      is_batch pf (InferenceInput.data inp)"
  proof
    assume ok: "http_status (fst (infer pf duration s mname request)) = 200"
    show "is_batch pf (InferenceInput.data inp)"
    proof (rule ccontr)
      assume "\<not> is_batch pf (InferenceInput.data inp)"
      then have "\<not> is_batch pf (InferenceInput.data inp) \<or> \<not> (0 < ?count \<and> 4 dvd ?count)" ..
      from rejected [OF this] have "http_status (fst (infer pf duration s mname request)) \<noteq> 200"
        by (elim exE conjE)
      from this ok show False by (rule notE)
    qed
  qed (rule accepted)
  have 2: "(\<exists>e. infer pf duration s mname request =
                   (Inl (HTTPException 500 (Str e)), count_inc ''error'' s)) \<and>
            http_status (fst (infer pf duration s mname request)) = 500"
    if "\<not> is_batch pf (InferenceInput.data inp)"
  proof -
    from that have "\<not> is_batch pf (InferenceInput.data inp) \<or> \<not> (0 < ?count \<and> 4 dvd ?count)" ..
    from rejected [OF this] obtain e where
      e: "infer pf duration s mname request =
               (Inl (HTTPException 500 (Str e)), count_inc ''error'' s)"
      and st: "http_status (fst (infer pf duration s mname request)) = 500"
      by (elim exE conjE)
    from e st show ?thesis by (intro conjI exI [of _ e])
  qed
  have 3: "\<not> is_batch pf (InferenceInput.data inp)" if "\<not> (0 < ?count \<and> 4 dvd ?count)"
  proof
    assume b: "is_batch pf (InferenceInput.data inp)"
    from that have "\<not> is_batch pf (InferenceInput.data inp) \<or> \<not> (0 < ?count \<and> 4 dvd ?count)" ..
    from rejected [OF this] have "http_status (fst (infer pf duration s mname request)) \<noteq> 200"
      by (elim exE conjE)
    from this accepted [OF b] show False by (rule notE)
  qed
  have i2: "\<not> is_batch pf (InferenceInput.data inp) \<longrightarrow>
            (\<exists>e. infer pf duration s mname request =
                   (Inl (HTTPException 500 (Str e)), count_inc ''error'' s)) \<and>
            http_status (fst (infer pf duration s mname request)) = 500"
    by (rule impI) (rule 2)
  have i3: "\<not> (0 < ?count \<and> 4 dvd ?count) \<longrightarrow> \<not> is_batch pf (InferenceInput.data inp)"
    by (rule impI) (rule 3)
  from 1 i2 i3 show ?thesis by (intro conjI)
qed

theorem malformed_rejected_witness:
  "loaded (model ready_server) \<and>
   \<not> is_batch no_parse [PyNum 1, PyNum 2, PyNum 3] \<and>
   (\<exists>e. infer no_parse (1 / 100) ready_server ''iris-classifier''
          (request_with [1, 3] [PyNum 1, PyNum 2, PyNum 3]) =
        (Inl (HTTPException 500 (Str e)), count_inc ''error'' ready_server)) \<and>
   \<not> is_batch no_parse [PyStr ''a'', PyStr ''b'', PyStr ''c'', PyStr ''d''] \<and>
   (\<exists>e. infer no_parse (1 / 100) ready_server ''iris-classifier''
          (request_with [1, 4] [PyStr ''a'', PyStr ''b'', PyStr ''c'', PyStr ''d'']) =
        (Inl (HTTPException 500 (Str e)), count_inc ''error'' ready_server)) \<and>
   \<not> is_batch no_parse [PyList [PyNum 1, PyNum 2, PyNum 3], PyList [PyNum 4]] \<and>
   (\<exists>e. infer no_parse (1 / 100) ready_server ''iris-classifier''
          (request_with [1, 4] [PyList [PyNum 1, PyNum 2, PyNum 3], PyList [PyNum 4]]) =
        (Inl (HTTPException 500 (Str e)), count_inc ''error'' ready_server)) \<and>
   \<not> is_batch no_parse [PyList [PyList [PyNum 1, PyNum 2, PyNum 3, PyNum 4]]] \<and>
   (\<exists>e. infer no_parse (1 / 100) ready_server ''iris-classifier''
          (request_with [1, 1, 4] [PyList [PyList [PyNum 1, PyNum 2, PyNum 3, PyNum 4]]]) =
        (Inl (HTTPException 500 (Str e)), count_inc ''error'' ready_server)) \<and>
   \<not> is_batch no_parse [PyInt (2 ^ 1024), PyInt 0, PyInt 0, PyInt 0] \<and>
   (\<exists>e. infer no_parse (1 / 100) ready_server ''iris-classifier''
          (request_with [1, 4] [PyInt (2 ^ 1024), PyInt 0, PyInt 0, PyInt 0]) =
        (Inl (HTTPException 500 (Str e)), count_inc ''error'' ready_server)) \<and>
   is_batch no_parse [PyInt 5, PyNum (7 / 2), PyBool True, PyNum (1 / 5)] \<and>
   http_status (fst (infer no_parse (1 / 100) ready_server ''iris-classifier''
      (request_with [1, 4] [PyInt 5, PyNum (7 / 2), PyBool True, PyNum (1 / 5)]))) = 200 \<and>
   is_batch no_parse [PyList sample_data, PyList sample_data] \<and>
   http_status (fst (infer no_parse (1 / 100) ready_server ''iris-classifier''
      (request_with [2, 4] [PyList sample_data, PyList sample_data]))) = 200"
proof -
  have l: "loaded (model ready_server)" by (simp add: ready_server_def)
  note t = malformed_rejected [OF l inputs_request_with]
  have step: "\<exists>e. infer no_parse (1 / 100) ready_server ''iris-classifier'' (request_with sh xs) =
        (Inl (HTTPException 500 (Str e)), count_inc ''error'' ready_server)"
    if "\<not> is_batch no_parse xs" for sh xs
    by (rule t [THEN conjunct2, THEN conjunct1, rule_format, THEN conjunct1])
       (simp only: InferenceInput.select_convs that not_False_eq_True)
  have ok: "http_status (fst (infer no_parse (1 / 100) ready_server ''iris-classifier''
       (request_with sh xs))) = 200"
    if "is_batch no_parse xs" for sh xs
    by (rule t [THEN conjunct1, THEN iffD2])
       (simp only: InferenceInput.select_convs that)
  have 1: "\<not> is_batch no_parse [PyNum 1, PyNum 2, PyNum 3]"
    by (simp add: is_batch_def feature_row_def)
  have 2: "\<not> is_batch no_parse [PyStr ''a'', PyStr ''b'', PyStr ''c'', PyStr ''d'']"
    by (simp add: is_batch_def feature_row_def convertible_def no_parse_def)
  have 3: "\<not> is_batch no_parse [PyList [PyNum 1, PyNum 2, PyNum 3], PyList [PyNum 4]]"
    by (simp add: is_batch_def feature_row_def convertible_def)
  have 4: "\<not> is_batch no_parse [PyList [PyList [PyNum 1, PyNum 2, PyNum 3, PyNum 4]]]"
    by (simp add: is_batch_def feature_row_def convertible_def)
  have 5: "\<not> is_batch no_parse [PyInt (2 ^ 1024), PyInt 0, PyInt 0, PyInt 0]"
    by (simp add: is_batch_def feature_row_def convertible_def int_too_large_def)
  have five: "to_float32 no_parse (PyInt 5) = Inr 5"
    using small_int_converts [of 5 no_parse] by simp
  have 6: "is_batch no_parse [PyInt 5, PyNum (7 / 2), PyBool True, PyNum (1 / 5)]"
    by (simp add: is_batch_def feature_row_def convertible_def five del: to_float32.simps(2))
  have 7: "is_batch no_parse [PyList sample_data, PyList sample_data]"
    by (simp add: is_batch_def feature_row_def convertible_def sample_data_def)
  from l 1 step [OF 1] 2 step [OF 2] 3 step [OF 3] 4 step [OF 4] 5 step [OF 5]
    6 ok [OF 6] 7 ok [OF 7]
  show ?thesis by (intro conjI)
qed

theorem declared_shape_unchecked_counterexample:
  "InferenceInput.shape (hd (inputs misdeclared_request)) = [3, 4] \<and>
   prod_list [3, 4 :: int] = 12 \<and>
   length (np_leaves (PyList (InferenceInput.data (hd (inputs misdeclared_request))))) = 4 \<and>
   http_status (fst (infer no_parse (1 / 100) ready_server ''iris-classifier'' misdeclared_request)) = 200 \<and>
   np_shape (PyList [PyList sample_data]) = Some [1, 4] \<and>
   http_status (fst (infer no_parse (1 / 100) ready_server ''iris-classifier''
      (request_with [2, 4] [PyList sample_data]))) = 200"
proof -
  have a: "np_array no_parse [PyList sample_data] =
      Inr (NDArray [1, 4] [51 / 10, 35 / 10, 14 / 10, 2 / 10])"
    by (simp add: np_array_def sample_data_def)
  have "np_shape (PyList [PyList sample_data]) = Some [1, 4]"
    by (simp add: sample_data_def)
  moreover note infer_row_status [OF a, of "1 / 100" "''iris-classifier''" "[2, 4]"]
    infer_row_status [OF np_array_sample, of no_parse "1 / 100" "''iris-classifier''" "[3, 4]"]
  ultimately show ?thesis
    by (simp add: misdeclared_request_def) (simp add: request_with_def sample_data_def)
qed

text \<open>
  Claim C2, as amended. The declared shape is never read: the decoded array and the result of
  the request are the same under any other declared shapes. The decoding step checks the
  payload against itself only: when it yields an array, the payload is rectangular, every
  scalar of it converts, the shape of the array is the nesting shape of the payload (a flat
  payload of \<open>n\<close> scalars becomes one row of \<open>n\<close>), and the number of items is the product of
  that shape. It accepts any number of columns; the classifier is applied to the decoded
  array, and only its matrix product requires four, so that a request that is answered has a
  payload of actual shape \<open>[4]\<close> or \<open>[N, 4]\<close>, \<open>N\<close> positive, with \<open>4 * N\<close> scalars. The
  counterexample before it is a payload of four numbers accepted under the declared shape
  \<open>[3, 4]\<close>, and one row of four accepted under \<open>[2, 4]\<close>.
\<close>

theorem declared_shape_not_read:
  "decode pf (request\<lparr>inputs := map (\<lambda>i. i\<lparr>InferenceInput.shape := f i\<rparr>) (inputs request)\<rparr>) =
     decode pf request \<and>
   infer pf duration s mname
     (request\<lparr>inputs := map (\<lambda>i. i\<lparr>InferenceInput.shape := f i\<rparr>) (inputs request)\<rparr>) =
     infer pf duration s mname request \<and>
   run_model pf s request =
     (case decode pf request of
        Inl e \<Rightarrow> Inl e
      | Inr raw \<Rightarrow> predict (weights (model s)) raw) \<and>
   (decode pf request = Inr a \<longrightarrow>
      (\<exists>inp rest sh.
          inputs request = inp # rest \<and>
          np_shape (PyList (InferenceInput.data inp)) = Some sh \<and>
          nd_shape a = (case sh of [n] \<Rightarrow> [1, n] | _ \<Rightarrow> sh) \<and>
          prod_list (nd_shape a) = length (np_leaves (PyList (InferenceInput.data inp))) \<and>
          length (nd_elems a) = length (np_leaves (PyList (InferenceInput.data inp))) \<and>
          list_all (convertible pf) (np_leaves (PyList (InferenceInput.data inp))))) \<and>
   (infer pf duration s mname request = (Inr resp, s') \<longrightarrow>
      (\<exists>inp rest N.
          inputs request = inp # rest \<and>
          (np_shape (PyList (InferenceInput.data inp)) = Some [4] \<and> N = 1 \<or>
           np_shape (PyList (InferenceInput.data inp)) = Some [N, 4]) \<and>
          0 < N \<and> length (np_leaves (PyList (InferenceInput.data inp))) = 4 * N))"
proof (intro conjI impI)
  show "decode pf (request\<lparr>inputs := map (\<lambda>i. i\<lparr>InferenceInput.shape := f i\<rparr>) (inputs request)\<rparr>) =
     decode pf request"
    by (rule decode_drop_declared) (simp add: comp_def)
  show "infer pf duration s mname
     (request\<lparr>inputs := map (\<lambda>i. i\<lparr>InferenceInput.shape := f i\<rparr>) (inputs request)\<rparr>) =
   infer pf duration s mname request"
    by (rule infer_drop_declared) (simp_all add: comp_def)
  show "run_model pf s request =
     (case decode pf request of
        Inl e \<Rightarrow> Inl e
      | Inr raw \<Rightarrow> predict (weights (model s)) raw)"
    by (rule run_model_decode)
next
  assume "decode pf request = Inr a"
  then show "\<exists>inp rest sh.
          inputs request = inp # rest \<and>
          np_shape (PyList (InferenceInput.data inp)) = Some sh \<and>
          nd_shape a = (case sh of [n] \<Rightarrow> [1, n] | _ \<Rightarrow> sh) \<and>
          prod_list (nd_shape a) = length (np_leaves (PyList (InferenceInput.data inp))) \<and>
          length (nd_elems a) = length (np_leaves (PyList (InferenceInput.data inp))) \<and>
          list_all (convertible pf) (np_leaves (PyList (InferenceInput.data inp)))"
    by (rule decode_Inr)
next
  assume ok: "infer pf duration s mname request = (Inr resp, s')"
  show "\<exists>inp rest N.
          inputs request = inp # rest \<and>
          (np_shape (PyList (InferenceInput.data inp)) = Some [4] \<and> N = 1 \<or>
           np_shape (PyList (InferenceInput.data inp)) = Some [N, 4]) \<and>
          0 < N \<and> length (np_leaves (PyList (InferenceInput.data inp))) = 4 * N"
  proof (cases rule: infer_cases [of s pf duration mname request])
    case not_ready
    with ok show ?thesis by simp
  next
    case (failed e)
    with ok show ?thesis by simp
  next
    case (succeeded r resp')
    from run_model_Inr [OF succeeded(2)] obtain inp rest a N where
      inputs: "inputs request = inp # rest"
      and a: "np_array pf (InferenceInput.data inp) = Inr a"
      and sh: "nd_shape a = [4] \<and> N = 1 \<or> nd_shape a = [N, 4]"
      and N: "0 < N"
      and cnt: "length (np_leaves (PyList (InferenceInput.data inp))) = 4 * N"
      by (elim exE conjE)
    have shape: "np_shape (PyList (InferenceInput.data inp)) = Some [4] \<and> N = 1 \<or>
            np_shape (PyList (InferenceInput.data inp)) = Some [N, 4]"
      using sh np_array_Inr(1) [OF a] by (elim disjE) simp_all
    show ?thesis
      by (intro exI [of _ inp] exI [of _ rest] exI [of _ N] conjI inputs shape N cnt)
  qed
qed

theorem declared_shape_not_read_witness:
  "infer no_parse (1 / 100) ready_server ''iris-classifier''
     (misdeclared_request\<lparr>inputs :=
        map (\<lambda>i. i\<lparr>InferenceInput.shape := [1, 4]\<rparr>) (inputs misdeclared_request)\<rparr>) =
   infer no_parse (1 / 100) ready_server ''iris-classifier'' misdeclared_request \<and>
   misdeclared_request\<lparr>inputs :=
        map (\<lambda>i. i\<lparr>InferenceInput.shape := [1, 4]\<rparr>) (inputs misdeclared_request)\<rparr> =
     sample_request \<and>
   fst (infer no_parse (1 / 100) ready_server ''iris-classifier'' misdeclared_request) =
     fst (infer no_parse (1 / 100) ready_server ''iris-classifier'' sample_request) \<and>
   (\<exists>inp rest N.
      inputs misdeclared_request = inp # rest \<and>
      (np_shape (PyList (InferenceInput.data inp)) = Some [4] \<and> N = 1 \<or>
       np_shape (PyList (InferenceInput.data inp)) = Some [N, 4]) \<and>
      0 < N \<and> length (np_leaves (PyList (InferenceInput.data inp))) = 4 * N) \<and>
   decode no_parse
     (misdeclared_request\<lparr>inputs :=
        map (\<lambda>i. i\<lparr>InferenceInput.shape := [1, 4]\<rparr>) (inputs misdeclared_request)\<rparr>) =
     decode no_parse misdeclared_request \<and>
   decode no_parse short_request = Inr (NDArray [1, 3] [1, 2, 3]) \<and>
   run_model no_parse ready_server short_request =
     predict (weights (model ready_server)) (NDArray [1, 3] [1, 2, 3]) \<and>
   (\<exists>inp rest sh.
      inputs short_request = inp # rest \<and>
      np_shape (PyList (InferenceInput.data inp)) = Some sh \<and>
      nd_shape (NDArray [1, 3] [1, 2, 3]) = (case sh of [n] \<Rightarrow> [1, n] | _ \<Rightarrow> sh) \<and>
      prod_list (nd_shape (NDArray [1, 3] [1, 2, 3])) =
        length (np_leaves (PyList (InferenceInput.data inp))) \<and>
      length (nd_elems (NDArray [1, 3] [1, 2, 3])) =
        length (np_leaves (PyList (InferenceInput.data inp))) \<and>
      list_all (convertible no_parse) (np_leaves (PyList (InferenceInput.data inp))))"
proof -
  have eq: "misdeclared_request\<lparr>inputs :=
        map (\<lambda>i. i\<lparr>InferenceInput.shape := [1, 4]\<rparr>) (inputs misdeclared_request)\<rparr> =
     sample_request"
    by (simp add: misdeclared_request_def sample_request_def request_with_def)
  note run = infer_sample [of no_parse "1 / 100" "''iris-classifier''" "[3, 4]",
      folded misdeclared_request_def]
  note t = declared_shape_not_read [where pf = no_parse and duration = "1 / 100"
      and s = ready_server and mname = "''iris-classifier''" and f = "\<lambda>i. [1, 4]"
      and request = misdeclared_request]
  note u = declared_shape_not_read [where pf = no_parse and duration = "1 / 100"
      and s = ready_server and mname = "''iris-classifier''" and f = "\<lambda>i. [1, 4]"
      and request = short_request and a = "NDArray [1, 3] [1, 2, 3]"]
  from t [THEN conjunct2, THEN conjunct1] have 1: "infer no_parse (1 / 100) ready_server ''iris-classifier''
     (misdeclared_request\<lparr>inputs :=
        map (\<lambda>i. i\<lparr>InferenceInput.shape := [1, 4]\<rparr>) (inputs misdeclared_request)\<rparr>) =
   infer no_parse (1 / 100) ready_server ''iris-classifier'' misdeclared_request" .
  from t [THEN conjunct2, THEN conjunct2, THEN conjunct2, THEN conjunct2, rule_format, OF run]
  have 2: "\<exists>inp rest N.
      inputs misdeclared_request = inp # rest \<and>
      (np_shape (PyList (InferenceInput.data inp)) = Some [4] \<and> N = 1 \<or>
       np_shape (PyList (InferenceInput.data inp)) = Some [N, 4]) \<and>
      0 < N \<and> length (np_leaves (PyList (InferenceInput.data inp))) = 4 * N" .
  have 3: "fst (infer no_parse (1 / 100) ready_server ''iris-classifier'' misdeclared_request) =
     fst (infer no_parse (1 / 100) ready_server ''iris-classifier'' sample_request)"
    using 1 unfolding eq by simp
  from t [THEN conjunct1] have 4: "decode no_parse
     (misdeclared_request\<lparr>inputs :=
        map (\<lambda>i. i\<lparr>InferenceInput.shape := [1, 4]\<rparr>) (inputs misdeclared_request)\<rparr>) =
     decode no_parse misdeclared_request" .
  from u [THEN conjunct2, THEN conjunct2, THEN conjunct1] have 5: "run_model no_parse ready_server short_request =
     predict (weights (model ready_server)) (NDArray [1, 3] [1, 2, 3])"
    by (simp add: decode_short)
  from u [THEN conjunct2, THEN conjunct2, THEN conjunct2, THEN conjunct1, rule_format,
      OF decode_short]
  have 6: "\<exists>inp rest sh.
      inputs short_request = inp # rest \<and>
      np_shape (PyList (InferenceInput.data inp)) = Some sh \<and>
      nd_shape (NDArray [1, 3] [1, 2, 3]) = (case sh of [n] \<Rightarrow> [1, n] | _ \<Rightarrow> sh) \<and>
      prod_list (nd_shape (NDArray [1, 3] [1, 2, 3])) =
        length (np_leaves (PyList (InferenceInput.data inp))) \<and>
      length (nd_elems (NDArray [1, 3] [1, 2, 3])) =
        length (np_leaves (PyList (InferenceInput.data inp))) \<and>
      list_all (convertible no_parse) (np_leaves (PyList (InferenceInput.data inp)))" .
  from 1 eq 3 2 4 decode_short [of no_parse] 5 6 show ?thesis by (intro conjI)
qed

text \<open>
  Claim C7. When the registry already holds the name, \<^verbatim>\<open>get_or_create_metric\<close> returns the
  collector registered under it and leaves the registry as it is, for each of the three
  metric classes, with labels or without, whatever the library's own checks say; nothing is
  raised. (The keyword \<^verbatim>\<open>buckets\<close> is passed to a histogram only, as the module does.)
\<close>

theorem get_or_create_metric_existing:
  assumes "reg n = Some c" and "buckets = None \<or> metric_class = Histogram"
  shows "get_or_create_metric valid reg metric_class n description labels buckets =
           Inr (Some c, reg)"
proof -
  have "new_metric valid reg metric_class n description ls buckets = Inl ValueError" for ls
    by (rule new_metric_existing [where reg = reg and n = n and c = c, OF assms])
  then show ?thesis
    using assms(1) by (simp add: get_or_create_metric_def split: option.splits list.splits)
qed

theorem get_or_create_metric_existing_witness:
  "get_or_create_metric all_valid Map.empty Histogram ''inference_request_duration_seconds''
     ''Inference latency in seconds'' (Some [''model'']) (Some latency_buckets) =
     Inr (Some latency_collector, latency_registry) \<and>
   latency_registry ''inference_request_duration_seconds'' = Some latency_collector \<and>
   get_or_create_metric all_valid latency_registry Histogram
     ''inference_request_duration_seconds'' ''Inference latency in seconds''
     (Some [''model'']) (Some latency_buckets) =
     Inr (Some latency_collector, latency_registry) \<and>
   get_or_create_metric all_valid latency_registry Gauge
     ''inference_request_duration_seconds'' ''Another description'' None None =
     Inr (Some latency_collector, latency_registry)"
proof -
  have 1: "get_or_create_metric all_valid Map.empty Histogram ''inference_request_duration_seconds''
     ''Inference latency in seconds'' (Some [''model'']) (Some latency_buckets) =
     Inr (Some latency_collector, latency_registry)"
    by (simp add: get_or_create_metric_def new_metric_def all_valid_def register_def
        get_names_def build_full_name_def latency_collector_def latency_registry_def Let_def)
  have 2: "latency_registry ''inference_request_duration_seconds'' = Some latency_collector"
    by (simp add: latency_registry_def)
  have 3: "Some latency_buckets = None \<or> Histogram = Histogram" by simp
  have 4: "(None :: real list option) = None \<or> Gauge = Histogram" by simp
  from 1 2 get_or_create_metric_existing [where reg = latency_registry, OF 2 3]
    get_or_create_metric_existing [where reg = latency_registry, OF 2 4]
  show ?thesis by (intro conjI)
qed

end
